theory Spec2Isabelle
  imports Complex_Main "HOL-Library.List_Lexorder" "HOL-Library.Char_ord"
begin

section \<open>Numbers: Python's \<open>round(x, ndigits)\<close>\<close>

text \<open>
  Timestamps are Python floats (doubles); each is read as the rational number it
  denotes. Comparisons of doubles are exact, so they are comparisons of these
  rationals. Arithmetic on doubles rounds: the difference \<open>a - b\<close> the program
  computes is not always the exact difference, so subtraction is a parameter
  \<open>fsub\<close> of the model (\<open>fsub a b\<close> is the double that \<open>a - b\<close> evaluates to).
  \<open>round(x, n)\<close> rounds to \<open>n\<close> decimal places, ties going to the even
  neighbour.
\<close>

type_synonym float_sub = "rat \<Rightarrow> rat \<Rightarrow> rat"

text \<open>Subtraction without rounding, for examples whose differences are exact.\<close>

definition exact_sub :: float_sub where
  "exact_sub a b = a - b"

definition round_half_even :: "rat \<Rightarrow> int" where
  "round_half_even x =
     (let f = \<lfloor>x\<rfloor>; d = x - of_int f
      in if d < 1 / 2 then f
         else if 1 / 2 < d then f + 1
         else if even f then f else f + 1)"

definition py_round :: "rat \<Rightarrow> nat \<Rightarrow> rat" where
  "py_round x ndigits = of_int (round_half_even (x * 10 ^ ndigits)) / 10 ^ ndigits"

section \<open>Segment clustering (\<open>cluster_segments\<close>)\<close>

record segment =
  seg_start :: rat
  seg_end :: rat
  seg_text :: string

record block =
  blk_start :: rat
  blk_end :: rat

text \<open>The four local variables of \<open>cluster_segments\<close>.\<close>

record cluster_state =
  blocks :: "block list"
  current_start :: rat
  last_end :: rat
  segment_count :: nat

definition cluster_init :: cluster_state where
  "cluster_init = \<lparr>blocks = [], current_start = - 1, last_end = - 1, segment_count = 0\<rparr>"

definition close_block :: "cluster_state \<Rightarrow> block" where
  "close_block st =
     \<lparr>blk_start = py_round (current_start st) 2, blk_end = py_round (last_end st) 2\<rparr>"

text \<open>One iteration of the \<open>for segment in segments\<close> loop body.\<close>

definition cluster_step ::
  "float_sub \<Rightarrow> rat \<Rightarrow> cluster_state \<Rightarrow> segment \<Rightarrow> cluster_state" where
  "cluster_step fsub gap_threshold st segment =
     (let st1 = st\<lparr>segment_count := segment_count st + 1\<rparr>;
          st2 = (if current_start st1 = - 1
                 then st1\<lparr>current_start := seg_start segment\<rparr> else st1);
          st3 = (if last_end st2 \<noteq> - 1 \<and>
                    fsub (seg_start segment) (last_end st2) > gap_threshold
                 then st2\<lparr>blocks := blocks st2 @ [close_block st2],
                          current_start := seg_start segment\<rparr>
                 else st2)
      in st3\<lparr>last_end := seg_end segment\<rparr>)"

fun cluster_loop ::
  "float_sub \<Rightarrow> rat \<Rightarrow> cluster_state \<Rightarrow> segment list \<Rightarrow> cluster_state" where
  "cluster_loop fsub gap_threshold st [] = st"
| "cluster_loop fsub gap_threshold st (segment # rest) =
     cluster_loop fsub gap_threshold (cluster_step fsub gap_threshold st segment) rest"

definition cluster_segments ::
  "float_sub \<Rightarrow> segment list \<Rightarrow> rat \<Rightarrow> block list \<times> nat" where
  "cluster_segments fsub segments gap_threshold =
     (let st = cluster_loop fsub gap_threshold cluster_init segments
      in (if current_start st \<noteq> - 1 then blocks st @ [close_block st] else blocks st,
          segment_count st))"

text \<open>The timestamps of a segment list in the order they occur.\<close>

definition timeline :: "segment list \<Rightarrow> rat list" where
  "timeline segments = concat (map (\<lambda>s. [seg_start s, seg_end s]) segments)"

definition seg :: "rat \<Rightarrow> rat \<Rightarrow> segment" where
  "seg a b = \<lparr>seg_start = a, seg_end = b, seg_text = []\<rparr>"

definition blk :: "rat \<Rightarrow> rat \<Rightarrow> block" where
  "blk a b = \<lparr>blk_start = a, blk_end = b\<rparr>"

text \<open>
  The doubles written \<open>190.71\<close> and \<open>10.71\<close>, and a subtraction that rounds as
  the subtraction of doubles does on them: their exact difference is just above 180,
  the computed one is 180.
\<close>

definition d_190_71 :: rat where
  "d_190_71 = 6710011601061151 / 35184372088832"

definition d_10_71 :: rat where
  "d_10_71 = 1507298500285563 / 140737488355328"

definition rounding_sub :: float_sub where
  "rounding_sub a b = (if a = d_190_71 \<and> b = d_10_71 then 180 else a - b)"

text \<open>Invariants of the clustering loop used in the proofs below.\<close>

definition blocks_ordered :: "block list \<Rightarrow> bool" where
  "blocks_ordered bs =
     (sorted (map blk_start bs) \<and>
      (\<forall>i j. i < j \<and> j < length bs \<longrightarrow> blk_end (bs ! i) \<le> blk_start (bs ! j)))"

definition bounded_by :: "block list \<Rightarrow> rat \<Rightarrow> bool" where
  "bounded_by bs x = (\<forall>b\<in>set bs. blk_start b \<le> x \<and> blk_end b \<le> x)"

text \<open>
  The threshold is not negative and a computed difference is positive only when
  the exact one is, as it is for doubles.
\<close>

definition gap_sound :: "float_sub \<Rightarrow> rat \<Rightarrow> bool" where
  "gap_sound fsub T = (0 \<le> T \<and> (\<forall>a b. 0 < fsub a b \<longrightarrow> b < a))"

definition cl_inv :: "float_sub \<Rightarrow> rat \<Rightarrow> cluster_state \<Rightarrow> segment list \<Rightarrow> bool" where
  "cl_inv fsub T st segs =
     (blocks_ordered (blocks st) \<and>
      bounded_by (blocks st) (py_round (current_start st) 2) \<and>
      (current_start st \<noteq> - 1 \<or> blocks st \<noteq> [] \<longrightarrow>
         (\<forall>s\<in>set segs. current_start st \<le> seg_start s)) \<and>
      (gap_sound fsub T \<or>
         (last_end st \<noteq> - 1 \<longrightarrow> (\<forall>s\<in>set segs. last_end st \<le> seg_start s))))"

definition count_inv :: "cluster_state \<Rightarrow> bool" where
  "count_inv st =
     (length (blocks st) + 1 \<le> segment_count st \<or>
      (blocks st = [] \<and> segment_count st = 0 \<and> last_end st = - 1 \<and> current_start st = - 1))"

section \<open>Media discovery (\<open>find_media_files\<close>)\<close>

text \<open>
  A file name or path is the list of the bytes of its UTF-8 encoding: \<open>list.sort\<close>
  compares strings by code points, which on UTF-8 is the lexicographic order on
  bytes, and the ASCII characters \<open>.\<close> and \<open>/\<close> occur in an encoding only as
  themselves. \<open>str.lower\<close> is Unicode-aware and is a parameter of the model
  (\<open>str_lower\<close> below). \<open>os.path.splitext\<close> follows the library's algorithm: the
  extension starts at the last dot of the last path component, unless only dots
  precede it. Lines printed to standard output are not part of the model.
\<close>

definition MEDIA_EXTENSIONS :: "string list" where
  "MEDIA_EXTENSIONS =
     [''.mp4'', ''.mkv'', ''.avi'', ''.mov'', ''.wav'', ''.mp3'', ''.flac'', ''.m4a'',
      ''.webm'', ''.aac'', ''.wma'', ''.ogg'', ''.m4v'', ''.3gp'', ''.ts'', ''.mpg'',
      ''.mpeg'']"

text \<open>Lower-casing of the ASCII letters, which is what \<open>str.lower\<close> does on ASCII names.\<close>

definition lower_char :: "char \<Rightarrow> char" where
  "lower_char c =
     (if CHR ''A'' \<le> c \<and> c \<le> CHR ''Z'' then char_of (of_char c + (32::nat)) else c)"

definition lower :: "string \<Rightarrow> string" where
  "lower s = map lower_char s"

definition splitext :: "string \<Rightarrow> string \<times> string" where
  "splitext p =
     (if CHR ''.'' \<notin> set p then (p, [])
      else
        let after = rev (takeWhile (\<lambda>c. c \<noteq> CHR ''.'') (rev p));
            head = take (length p - length after - 1) p;
            stem = rev (takeWhile (\<lambda>c. c \<noteq> CHR ''/'') (rev head))
        in if CHR ''/'' \<notin> set after \<and> (\<exists>c\<in>set stem. c \<noteq> CHR ''.'')
           then (head, CHR ''.'' # after) else (p, []))"

definition path_join :: "string \<Rightarrow> string \<Rightarrow> string" where
  "path_join a b =
     (if b \<noteq> [] \<and> hd b = CHR ''/'' then b
      else if a = [] \<or> last a = CHR ''/'' then a @ b
      else a @ CHR ''/'' # b)"

definition dirname :: "string \<Rightarrow> string" where
  "dirname p =
     (let head = rev (dropWhile (\<lambda>c. c \<noteq> CHR ''/'') (rev p))
      in if head \<noteq> [] \<and> (\<exists>c\<in>set head. c \<noteq> CHR ''/'')
         then rev (dropWhile (\<lambda>c. c = CHR ''/'') (rev head)) else head)"

text \<open>
  The lines \<open>find_media_files\<close> writes to its debug log, by the text they carry: the
  directory, the extension set, a visited directory, an accepted file name, an
  ignored file name with its extension.
\<close>

datatype log_line =
    Scanning string
  | Extensions
  | Visiting string
  | Accept string
  | Ignore string string

text \<open>
  The operating system as \<open>find_media_files\<close> sees it: the path functions of
  \<open>os.path\<close>, \<open>str.lower\<close>, whether the debug log beside the scanned directory can
  be opened for writing, whether writing a given line to it succeeds (a name that
  cannot be encoded as UTF-8 makes \<open>log.write\<close> raise), and what
  \<open>os.walk(directory, followlinks=True)\<close> yields, a list of
  \<open>(dirpath, dirnames, filenames)\<close>.
\<close>

record os_env =
  os_sep :: string
  isabs :: "string \<Rightarrow> bool"
  abspath :: "string \<Rightarrow> string"
  os_dirname :: "string \<Rightarrow> string"
  os_join :: "string \<Rightarrow> string \<Rightarrow> string"
  str_lower :: "string \<Rightarrow> string"
  log_opens :: "string \<Rightarrow> bool"
  log_writes :: "log_line \<Rightarrow> bool"
  walk :: "string \<Rightarrow> (string \<times> string list \<times> string list) list"

definition is_media :: "os_env \<Rightarrow> string \<Rightarrow> bool" where
  "is_media env f = (str_lower env (snd (splitext f)) \<in> set MEDIA_EXTENSIONS)"

definition normalize_directory :: "os_env \<Rightarrow> string \<Rightarrow> string" where
  "normalize_directory env directory =
     (let d = (if directory \<noteq> [] \<and> last directory = CHR 0x22
               then butlast directory else directory)
      in if length d = 2 \<and> d ! 1 = CHR '':'' then d @ os_sep env
         else if \<not> isabs env d then abspath env d
         else d)"

text \<open>
  The loop \<open>for f in files\<close>. The result is \<open>media_files\<close> and whether the loop ran
  to its end; it stops at the first \<open>log.write\<close> that raises. An accepted path is
  appended before its line is written.
\<close>

fun visit_files :: "os_env \<Rightarrow> string \<Rightarrow> string list \<Rightarrow> string list \<Rightarrow> string list \<times> bool" where
  "visit_files env dirpath [] media_files = (media_files, True)"
| "visit_files env dirpath (f # rest) media_files =
     (let ext = str_lower env (snd (splitext f)) in
      if ext \<in> set MEDIA_EXTENSIONS then
        (let media_files1 = media_files @ [os_join env dirpath f] in
         if log_writes env (Accept f) then visit_files env dirpath rest media_files1
         else (media_files1, False))
      else if log_writes env (Ignore f ext) then visit_files env dirpath rest media_files
      else (media_files, False))"

text \<open>The loop \<open>for root, dirs, files in os.walk(...)\<close>.\<close>

fun walk_loop ::
  "os_env \<Rightarrow> (string \<times> string list \<times> string list) list \<Rightarrow> string list \<Rightarrow> string list \<times> bool" where
  "walk_loop env [] media_files = (media_files, True)"
| "walk_loop env ((dirpath, dirs, files) # rest) media_files =
     (if log_writes env (Visiting dirpath) then
        (case visit_files env dirpath files media_files of
           (media_files1, True) \<Rightarrow> walk_loop env rest media_files1
         | (media_files1, False) \<Rightarrow> (media_files1, False))
      else (media_files, False))"

text \<open>
  The walk runs inside \<open>with open(debug_log_path, "w")\<close> under a \<open>try\<close>: an
  exception from opening the log or from any write ends the walk, is caught, and
  the paths appended so far are sorted and returned.
\<close>

definition find_media_files :: "os_env \<Rightarrow> string \<Rightarrow> string list" where
  "find_media_files env directory =
     (let d = normalize_directory env directory;
          debug_log_path = os_join env (os_dirname env (abspath env d)) ''scan_debug.log'';
          media_files =
            (if log_opens env debug_log_path \<and> log_writes env (Scanning d) \<and>
                log_writes env Extensions
             then fst (walk_loop env (walk env d) []) else [])
      in sort media_files)"

text \<open>The paths a completed visit of one directory appends.\<close>

definition visit :: "os_env \<Rightarrow> string \<times> string list \<times> string list \<Rightarrow> string list" where
  "visit env entry =
     (case entry of (dirpath, dirs, files) \<Rightarrow>
        map (os_join env dirpath) (filter (is_media env) files))"

text \<open>
  A POSIX instance of the environment on ASCII names, in which the log can be
  opened and written, and the directory of the example.
\<close>

definition posix_env :: "(string \<Rightarrow> (string \<times> string list \<times> string list) list) \<Rightarrow> os_env" where
  "posix_env w =
     \<lparr>os_sep = ''/'', isabs = (\<lambda>p. p \<noteq> [] \<and> hd p = CHR ''/''),
      abspath = (\<lambda>p. if p \<noteq> [] \<and> hd p = CHR ''/'' then p else ''/cwd/'' @ p),
      os_dirname = dirname, os_join = path_join, str_lower = lower,
      log_opens = (\<lambda>p. True), log_writes = (\<lambda>l. True), walk = w\<rparr>"

definition example_walk :: "string \<Rightarrow> (string \<times> string list \<times> string list) list" where
  "example_walk d = [(d, [], [''c.MKV'', ''b.txt'', ''a.mp4''])]"



section \<open>JSON values, the scan report and the batch scanners\<close>

text \<open>
  A parsed JSON document; an object is the list of its items in order. The report
  file on disk is kept as the document \<open>json.load\<close> returns for it, or as
  \<open>Garbage\<close> when reading or parsing it raises. The debug log that
  \<open>find_media_files\<close> writes beside the scanned directory is taken to be a file
  other than the report, so discovery leaves the disk of reports as it is.
\<close>

datatype json =
    JNull
  | JBool bool
  | JInt int
  | JNum rat
  | JStr string
  | JArr "json list"
  | JObj "(string \<times> json) list"

datatype py_error = TypeError | AttributeError | OSError | BackendError string

datatype file_data = Garbage | Parsed json

type_synonym disk = "string \<rightharpoonup> file_data"

definition is_substring :: "string \<Rightarrow> string \<Rightarrow> bool" where
  "is_substring xs ys =
     list_ex (\<lambda>i. take (length xs) (drop i ys) = xs) [0..<Suc (length ys)]"

text \<open>\<open>k in v\<close> for a string \<open>k\<close>; \<open>None\<close> is Python's \<open>TypeError\<close>.\<close>

fun py_in :: "string \<Rightarrow> json \<Rightarrow> bool option" where
  "py_in k (JObj kv) = Some (map_of kv k \<noteq> None)"
| "py_in k (JArr xs) = Some (JStr k \<in> set xs)"
| "py_in k (JStr s) = Some (is_substring k s)"
| "py_in k v = None"

text \<open>What \<open>for r in v\<close> iterates over; \<open>None\<close> is \<open>TypeError\<close>.\<close>

fun py_iter :: "json \<Rightarrow> json list option" where
  "py_iter (JArr xs) = Some xs"
| "py_iter (JObj kv) = Some (map (\<lambda>(k, v). JStr k) kv)"
| "py_iter (JStr s) = Some (map (\<lambda>c. JStr [c]) s)"
| "py_iter v = None"

text \<open>\<open>v > 0\<close>; \<open>None\<close> is \<open>TypeError\<close>.\<close>

fun py_gt_zero :: "json \<Rightarrow> bool option" where
  "py_gt_zero (JInt n) = Some (0 < n)"
| "py_gt_zero (JNum x) = Some (0 < x)"
| "py_gt_zero (JBool b) = Some b"
| "py_gt_zero v = None"

text \<open>
  The body of \<open>for r in data["results"]\<close>: \<open>if "file" in r: existing_results[r["file"]] = r\<close>.
  Any exception leaves the loop through the enclosing \<open>except\<close>, and the entries
  stored so far stay. Only string keys are recorded: a path is looked up later.
\<close>

fun load_loop :: "(string \<rightharpoonup> json) \<Rightarrow> json list \<Rightarrow> (string \<rightharpoonup> json)" where
  "load_loop m [] = m"
| "load_loop m (r # rs) =
     (case py_in ''file'' r of
        None \<Rightarrow> m
      | Some False \<Rightarrow> load_loop m rs
      | Some True \<Rightarrow>
          (case r of
             JObj kv \<Rightarrow>
               (case map_of kv ''file'' of
                  Some (JStr f) \<Rightarrow> load_loop (m(f \<mapsto> r)) rs
                | Some (JArr xs) \<Rightarrow> m
                | Some (JObj kv') \<Rightarrow> m
                | _ \<Rightarrow> load_loop m rs)
           | _ \<Rightarrow> m))"

text \<open>
  \<open>existing_results\<close> after the block \<open>if skip_existing and os.path.exists(report_path)\<close>.
\<close>

definition load_existing :: "bool \<Rightarrow> file_data option \<Rightarrow> (string \<rightharpoonup> json)" where
  "load_existing skip_existing file =
     (if \<not> skip_existing then Map.empty
      else case file of
        Some (Parsed (JObj kv)) \<Rightarrow>
          (case map_of kv ''results'' of
             None \<Rightarrow> Map.empty
           | Some v \<Rightarrow> (case py_iter v of None \<Rightarrow> Map.empty | Some rs \<Rightarrow> load_loop Map.empty rs))
      | _ \<Rightarrow> Map.empty)"

record scan_state =
  results :: "json list"
  files_with_voice :: nat
  scanned :: "string list"

definition scan_init :: scan_state where
  "scan_init = \<lparr>results = [], files_with_voice = 0, scanned = []\<rparr>"

text \<open>\<open>prev.get("segments_found", 0)\<close>\<close>

fun get_segments_found :: "json \<Rightarrow> py_error + json" where
  "get_segments_found (JObj kv) =
     (case map_of kv ''segments_found'' of None \<Rightarrow> Inr (JInt 0) | Some v \<Rightarrow> Inr v)"
| "get_segments_found v = Inl AttributeError"

text \<open>
  The loop \<open>for i, file_path in enumerate(media_files, 1)\<close> of both batch scanners.
  \<open>process\<close> is the \<open>try\<close> block that scans one file: it yields the entry to append
  and whether \<open>files_with_voice\<close> is incremented. \<open>scanned\<close> records the files it ran on.
\<close>

definition scan_file :: "(string \<Rightarrow> json \<times> bool) \<Rightarrow> string \<Rightarrow> scan_state \<Rightarrow> scan_state" where
  "scan_file process file_path st =
     (case process file_path of (entry, voice) \<Rightarrow>
        st\<lparr>results := results st @ [entry],
           files_with_voice := files_with_voice st + (if voice then 1 else 0),
           scanned := scanned st @ [file_path]\<rparr>)"

fun scan_loop ::
  "bool \<Rightarrow> (string \<rightharpoonup> json) \<Rightarrow> (string \<Rightarrow> json \<times> bool) \<Rightarrow> string list \<Rightarrow> scan_state
    \<Rightarrow> py_error + scan_state" where
  "scan_loop skip_existing existing_results process [] st = Inr st"
| "scan_loop skip_existing existing_results process (file_path # rest) st =
     (case (if skip_existing then existing_results file_path else None) of
        None \<Rightarrow>
          scan_loop skip_existing existing_results process rest (scan_file process file_path st)
      | Some prev \<Rightarrow>
          (case py_in ''error'' prev of
             None \<Rightarrow> Inl TypeError
           | Some True \<Rightarrow>
               scan_loop skip_existing existing_results process rest
                 (scan_file process file_path st)
           | Some False \<Rightarrow>
               (case get_segments_found prev of
                  Inl e \<Rightarrow> Inl e
                | Inr v \<Rightarrow>
                    (case py_gt_zero v of
                       None \<Rightarrow> Inl TypeError
                     | Some voice \<Rightarrow>
                         scan_loop skip_existing existing_results process rest
                           (st\<lparr>results := results st @ [prev],
                               files_with_voice :=
                                 files_with_voice st + (if voice then 1 else 0)\<rparr>)))))"

text \<open>
  A loaded Whisper model: the name it was built from and the number of the
  construction that built it, so that two constructions give two handles.
\<close>

datatype whisper_model = WhisperModel string nat

text \<open>
  What the scanners use from outside: the file system walk, the voice-activity
  backend (speech spans and total duration of a file, or the message of the exception
  it raised), the speech backend (\<open>model.transcribe\<close> with \<open>vad_filter\<close>: segments and
  \<open>info.duration\<close> when present), model construction, the clock, the report path
  next to the script, whether a path can be written, how a float prints, and the
  subtraction of doubles that \<open>cluster_segments\<close> uses.
\<close>

record scan_env =
  os :: os_env
  vad_backend :: "string \<Rightarrow> rat \<Rightarrow> string + ((rat \<times> rat) list \<times> rat)"
  transcribe :: "whisper_model \<Rightarrow> string \<Rightarrow> bool \<Rightarrow> string + (segment list \<times> rat option)"
  load_model :: "string \<Rightarrow> string + whisper_model"
  now :: string
  default_report_path :: string
  writable :: "string \<Rightarrow> bool"
  show_float :: "rat \<Rightarrow> string"
  minus_float :: float_sub

definition run_vad_scan ::
  "scan_env \<Rightarrow> string \<Rightarrow> rat \<Rightarrow> string + ((rat \<times> rat) list \<times> rat \<times> rat)" where
  "run_vad_scan env file_path threshold =
     (case vad_backend env file_path threshold of
        Inl msg \<Rightarrow> Inl msg
      | Inr (speech_timestamps, total_duration) \<Rightarrow>
          Inr (speech_timestamps,
               sum_list (map (\<lambda>(s, e). e - s) speech_timestamps),
               total_duration))"

definition error_entry :: "string \<Rightarrow> string \<Rightarrow> json" where
  "error_entry file_path msg = JObj [(''file'', JStr file_path), (''error'', JStr msg)]"

definition block_json :: "rat \<Rightarrow> rat \<Rightarrow> json" where
  "block_json s e = JObj [(''start'', JNum s), (''end'', JNum e)]"

text \<open>The \<open>try\<close> block of \<open>run_batch_vad_scan\<close> for one file.\<close>

definition vad_process :: "scan_env \<Rightarrow> rat \<Rightarrow> string \<Rightarrow> json \<times> bool" where
  "vad_process env threshold file_path =
     (case run_vad_scan env file_path threshold of
        Inl msg \<Rightarrow> (error_entry file_path msg, False)
      | Inr (timestamps, speech_dur, total_dur) \<Rightarrow>
          if timestamps \<noteq> [] then
            (JObj [(''file'', JStr file_path),
                   (''duration_sec'', JNum (py_round total_dur 1)),
                   (''segments_found'', JInt (int (length timestamps))),
                   (''speech_duration_sec'', JNum (py_round speech_dur 1)),
                   (''blocks'', JArr (map (\<lambda>(s, e). block_json (py_round s 2) (py_round e 2))
                                        timestamps)),
                   (''transcribe_cmds'', JArr [])], True)
          else
            (JObj [(''file'', JStr file_path),
                   (''duration_sec'', JNum (py_round total_dur 1)),
                   (''segments_found'', JInt 0),
                   (''speech_duration_sec'', JInt 0),
                   (''blocks'', JArr [])], False))"

definition transcribe_cmd :: "scan_env \<Rightarrow> string \<Rightarrow> block \<Rightarrow> json" where
  "transcribe_cmd env file_path b =
     JStr (''python fast_engine.py transcribe '' @ [CHR 0x22] @ file_path @ [CHR 0x22] @
           '' --start '' @ show_float env (blk_start b) @
           '' --end '' @ show_float env (blk_end b))"

text \<open>The \<open>try\<close> block of \<open>run_batch_scanner\<close> for one file.\<close>

definition whisper_process :: "scan_env \<Rightarrow> whisper_model \<Rightarrow> bool \<Rightarrow> string \<Rightarrow> json \<times> bool" where
  "whisper_process env model use_vad file_path =
     (case transcribe env model file_path use_vad of
        Inl msg \<Rightarrow> (error_entry file_path msg, False)
      | Inr (segments, duration) \<Rightarrow>
          (case cluster_segments (minus_float env) segments 180 of (found, count) \<Rightarrow>
             if found \<noteq> [] then
               (JObj [(''file'', JStr file_path),
                      (''duration_sec'',
                         (case duration of None \<Rightarrow> JInt 0 | Some d \<Rightarrow> JNum (py_round d 1))),
                      (''segments_found'', JInt (int count)),
                      (''blocks'', JArr (map (\<lambda>b. block_json (blk_start b) (blk_end b)) found)),
                      (''transcribe_cmds'', JArr (map (transcribe_cmd env file_path) found))],
                True)
             else
               (JObj [(''file'', JStr file_path),
                      (''duration_sec'', JInt 0),
                      (''segments_found'', JInt 0),
                      (''blocks'', JArr [])], False)))"

record batch_result =
  br_disk :: disk
  br_report :: json
  br_scanned :: "string list"

definition the_report_path :: "scan_env \<Rightarrow> string option \<Rightarrow> string" where
  "the_report_path env report_path =
     (case report_path of None \<Rightarrow> default_report_path env | Some p \<Rightarrow> p)"

text \<open>\<open>os.makedirs\<close> and \<open>open(report_path, "w")\<close> followed by \<open>json.dump\<close>.\<close>

definition write_report ::
  "scan_env \<Rightarrow> string \<Rightarrow> json \<Rightarrow> string list \<Rightarrow> disk \<Rightarrow> py_error + batch_result" where
  "write_report env path report files d =
     (if writable env path
      then Inr \<lparr>br_disk = d(path \<mapsto> Parsed report), br_report = report, br_scanned = files\<rparr>
      else Inl OSError)"

text \<open>The \<open>report\<close> dictionary of \<open>run_batch_vad_scan\<close>.\<close>

definition vad_report :: "scan_env \<Rightarrow> string \<Rightarrow> nat \<Rightarrow> scan_state \<Rightarrow> rat \<Rightarrow> json" where
  "vad_report env directory total_files st threshold =
     JObj [(''date'', JStr (now env)),
           (''directory'', JStr directory),
           (''total_files'', JInt (int total_files)),
           (''files_with_voice'', JInt (int (files_with_voice st))),
           (''results'', JArr (results st)),
           (''scan_model'', JStr ''silero-vad''),
           (''vad_threshold'', JNum threshold)]"

definition run_batch_vad_scan ::
  "scan_env \<Rightarrow> string \<Rightarrow> rat \<Rightarrow> string option \<Rightarrow> bool \<Rightarrow> disk \<Rightarrow> py_error + batch_result" where
  "run_batch_vad_scan env directory threshold report_path skip_existing d =
     (let media_files = find_media_files (os env) directory;
          total_files = length media_files;
          path = the_report_path env report_path;
          existing_results = load_existing skip_existing (d path)
      in case scan_loop skip_existing existing_results (vad_process env threshold)
                media_files scan_init of
           Inl e \<Rightarrow> Inl e
         | Inr st \<Rightarrow>
             write_report env path (vad_report env directory total_files st threshold) (scanned st) d)"

text \<open>
  In \<open>run_batch_scanner\<close> the parameter \<open>model\<close> is overwritten by the freshly built
  model when it was \<open>None\<close>, so the later test \<open>model is None\<close> reads the new value.
\<close>

text \<open>\<open>if model is None: model = WhisperModel("tiny.en", ...)\<close>\<close>

definition resolve_model :: "scan_env \<Rightarrow> whisper_model option \<Rightarrow> py_error + whisper_model" where
  "resolve_model env model =
     (case model of
        None \<Rightarrow> (case load_model env ''tiny.en'' of
                    Inl msg \<Rightarrow> Inl (BackendError msg) | Inr m \<Rightarrow> Inr m)
      | Some m \<Rightarrow> Inr m)"

text \<open>
  The \<open>report\<close> dictionary of \<open>run_batch_scanner\<close>; \<open>model\<close> is the local variable
  at that point.
\<close>

definition whisper_report ::
  "scan_env \<Rightarrow> string \<Rightarrow> nat \<Rightarrow> scan_state \<Rightarrow> whisper_model option \<Rightarrow> json" where
  "whisper_report env directory total_files st model =
     JObj [(''date'', JStr (now env)),
           (''directory'', JStr directory),
           (''total_files'', JInt (int total_files)),
           (''files_with_voice'', JInt (int (files_with_voice st))),
           (''results'', JArr (results st)),
           (''scan_model'', JStr (case model of None \<Rightarrow> ''tiny.en'' | Some m \<Rightarrow> ''custom''))]"

definition run_batch_scanner ::
  "scan_env \<Rightarrow> string \<Rightarrow> bool \<Rightarrow> string option \<Rightarrow> whisper_model option \<Rightarrow> bool \<Rightarrow> disk
    \<Rightarrow> py_error + batch_result" where
  "run_batch_scanner env directory use_vad report_path model skip_existing d =
     (let media_files = find_media_files (os env) directory;
          total_files = length media_files
      in case resolve_model env model of
           Inl e \<Rightarrow> Inl e
         | Inr model1 \<Rightarrow>
             (let path = the_report_path env report_path;
                  existing_results = load_existing skip_existing (d path)
              in case scan_loop skip_existing existing_results
                        (whisper_process env model1 use_vad) media_files scan_init of
                   Inl e \<Rightarrow> Inl e
                 | Inr st \<Rightarrow>
                     write_report env path
                       (whisper_report env directory total_files st (Some model1)) (scanned st) d))"

text \<open>
  Vocabulary for the statements below: the path an entry is filed under, whether its
  \<open>segments_found\<close> can be compared with 0 and whether it is positive, whether a
  discovered file is skipped, the entry a run appends for a file, and whether that
  file counts as one with voice.
\<close>

definition entry_file :: "json \<Rightarrow> string option" where
  "entry_file r =
     (case r of
        JObj kv \<Rightarrow> (case map_of kv ''file'' of Some (JStr f) \<Rightarrow> Some f | _ \<Rightarrow> None)
      | _ \<Rightarrow> None)"

definition count_ok :: "json \<Rightarrow> bool" where
  "count_ok r =
     (case get_segments_found r of Inl e \<Rightarrow> False | Inr v \<Rightarrow> py_gt_zero v \<noteq> None)"

definition counts_voice :: "json \<Rightarrow> bool" where
  "counts_voice r =
     (case get_segments_found r of Inl e \<Rightarrow> False | Inr v \<Rightarrow> py_gt_zero v = Some True)"

definition skips :: "bool \<Rightarrow> (string \<rightharpoonup> json) \<Rightarrow> string \<Rightarrow> bool" where
  "skips skip_existing existing_results f =
     (skip_existing \<and>
      (case existing_results f of None \<Rightarrow> False | Some prev \<Rightarrow> py_in ''error'' prev = Some False))"

definition resumed ::
  "bool \<Rightarrow> (string \<rightharpoonup> json) \<Rightarrow> (string \<Rightarrow> json \<times> bool) \<Rightarrow> string \<Rightarrow> json" where
  "resumed skip_existing existing_results process f =
     (case existing_results f of
        Some prev \<Rightarrow> if skips skip_existing existing_results f then prev else fst (process f)
      | None \<Rightarrow> fst (process f))"

definition voiced ::
  "bool \<Rightarrow> (string \<rightharpoonup> json) \<Rightarrow> (string \<Rightarrow> json \<times> bool) \<Rightarrow> string \<Rightarrow> bool" where
  "voiced skip_existing existing_results process f =
     (case existing_results f of
        Some prev \<Rightarrow> if skips skip_existing existing_results f then counts_voice prev
                     else snd (process f)
      | None \<Rightarrow> snd (process f))"

definition report_results :: "json \<Rightarrow> json list" where
  "report_results report =
     (case report of
        JObj kv \<Rightarrow> (case map_of kv ''results'' of Some (JArr rs) \<Rightarrow> rs | _ \<Rightarrow> [])
      | _ \<Rightarrow> [])"

definition entry_ok :: "string \<Rightarrow> json \<times> bool \<Rightarrow> bool" where
  "entry_ok f p =
     (entry_file (fst p) = Some f \<and>
      (py_in ''error'' (fst p) = Some True \<or>
       (py_in ''error'' (fst p) = Some False \<and> count_ok (fst p) \<and>
        counts_voice (fst p) = snd p)))"

definition field :: "string \<Rightarrow> json \<Rightarrow> json option" where
  "field k j = (case j of JObj kv \<Rightarrow> map_of kv k | _ \<Rightarrow> None)"

text \<open>
  An example: the directory of the discovery example, a backend that finds one
  speech span in \<open>c.MKV\<close>, and a prior report with a good entry for \<open>a.mp4\<close>,
  an error entry for \<open>c.MKV\<close> and an entry for a file that is no longer there.
\<close>

definition ex_vad :: "string \<Rightarrow> rat \<Rightarrow> string + ((rat \<times> rat) list \<times> rat)" where
  "ex_vad f threshold =
     (if f = ''/media/c.MKV'' then Inr ([(1 / 1000, 2)], 10) else Inl ''ffmpeg failed'')"

definition ex_scan_env :: scan_env where
  "ex_scan_env =
     \<lparr>os = posix_env example_walk, vad_backend = ex_vad,
      transcribe = (\<lambda>m f v. Inl ''unavailable''),
      load_model = (\<lambda>n. Inr (WhisperModel n 0)),
      now = ''2026-01-02'', default_report_path = ''/app/voice_scan_results.json'',
      writable = (\<lambda>p. True), show_float = (\<lambda>x. ''0''), minus_float = exact_sub\<rparr>"

definition ex_entry_a :: json where
  "ex_entry_a =
     JObj [(''file'', JStr ''/media/a.mp4''), (''duration_sec'', JNum 10),
           (''segments_found'', JInt 2), (''blocks'', JArr [block_json 1 2]),
           (''transcribe_cmds'', JArr [])]"

definition ex_entry_c :: json where
  "ex_entry_c = error_entry ''/media/c.MKV'' ''ffmpeg failed''"

definition ex_entry_z :: json where
  "ex_entry_z =
     JObj [(''file'', JStr ''/old/z.mp4''), (''duration_sec'', JNum 5),
           (''segments_found'', JInt 0), (''blocks'', JArr [])]"

definition ex_prior :: json where
  "ex_prior =
     JObj [(''date'', JStr ''2026-01-01''),
           (''results'', JArr [ex_entry_a, ex_entry_c, ex_entry_z])]"

definition ex_disk :: disk where
  "ex_disk = [''/r.json'' \<mapsto> Parsed ex_prior]"

definition ex_new_c :: json where
  "ex_new_c =
     JObj [(''file'', JStr ''/media/c.MKV''), (''duration_sec'', JNum 10),
           (''segments_found'', JInt 1), (''speech_duration_sec'', JNum 2),
           (''blocks'', JArr [block_json 0 2]), (''transcribe_cmds'', JArr [])]"

definition ex_report :: json where
  "ex_report =
     JObj [(''date'', JStr ''2026-01-02''), (''directory'', JStr ''/media''),
           (''total_files'', JInt 2), (''files_with_voice'', JInt 2),
           (''results'', JArr [ex_entry_a, ex_new_c]),
           (''scan_model'', JStr ''silero-vad''), (''vad_threshold'', JNum (1 / 2))]"

definition ex_result :: batch_result where
  "ex_result =
     \<lparr>br_disk = ex_disk(''/r.json'' \<mapsto> Parsed ex_report), br_report = ex_report,
      br_scanned = [''/media/c.MKV'']\<rparr>"

section \<open>The command server\<close>

text \<open>
  A line written to standard output: free text (progress and tagged lines such as
  \<open>[ERROR] ...\<close>), or a JSON object printed with \<open>json.dumps\<close>.
\<close>

datatype out_line = Text string | Status "(string \<times> json) list"

text \<open>
  A speech model built by \<open>WhisperModel(name, ...)\<close>: the name it was built from and
  the number of constructions attempted before it.
\<close>

datatype backend = Backend json nat

type_synonym command = "(string \<times> json) list"

text \<open>
  What a handler called by the server does, as far as the server can see it: the
  text lines it prints, the message of the exception it raises (if any), and the
  world it leaves. The handlers \<open>run_batch_scanner\<close>, \<open>run_batch_vad_scan\<close>,
  \<open>run_transcriber\<close> and \<open>run_analyze\<close> print text lines only.
\<close>

type_synonym 'w handler_result = "string list \<times> string option \<times> 'w"

text \<open>
  The paths through \<open>run_semantic_search\<close>: the import of sentence-transformers
  fails; the embedding model cannot be loaded; no transcript file is found; the
  transcript files (their number is given) hold no content line; the search runs and
  prints the given text lines; or an exception escapes after the given text lines.
\<close>

datatype search_path =
    NotInstalled
  | EmbedLoadFailed string
  | NoTranscripts
  | NoChunks nat
  | Searched "string list"
  | SearchRaised "string list" string

text \<open>
  The paths through \<open>run_detect_meetings\<close>: no transcript file is found; the files
  are analysed and the text lines printed; or an exception escapes.
\<close>

datatype detect_path =
    NoTranscriptFiles
  | Detected "string list"
  | DetectRaised "string list" string

record 'w server_env =
  construct :: "json \<Rightarrow> string option"
  py_str :: "json \<Rightarrow> string"
  batch_scanner :: "command \<Rightarrow> backend option \<Rightarrow> 'w \<Rightarrow> 'w handler_result"
  batch_vad_scan :: "command \<Rightarrow> 'w \<Rightarrow> 'w handler_result"
  transcriber :: "command \<Rightarrow> backend option \<Rightarrow> 'w \<Rightarrow> 'w handler_result"
  analyze :: "command \<Rightarrow> 'w \<Rightarrow> 'w handler_result"
  semantic_search :: "command \<Rightarrow> 'w \<Rightarrow> search_path \<times> 'w"
  detect_meetings :: "command \<Rightarrow> 'w \<Rightarrow> detect_path \<times> 'w"

text \<open>
  The local variables of \<open>run_server\<close>, the constructions of a speech model
  attempted so far, the lines written and the world. \<open>scanner_model\<close> is bound once,
  before the loop, and lives until \<open>run_server\<close> returns.
\<close>

record 'w server_state =
  scanner_model :: backend
  current_model :: backend
  current_model_name :: json
  constructed :: "json list"
  out :: "out_line list"
  world :: 'w

datatype control = Continue | Break

definition emit :: "out_line list \<Rightarrow> 'w server_state \<Rightarrow> 'w server_state" where
  "emit ls st = st\<lparr>out := out st @ ls\<rparr>"

definition error_line :: "string \<Rightarrow> out_line" where
  "error_line msg = Text (''[ERROR] '' @ msg)"

definition complete :: "string \<Rightarrow> out_line" where
  "complete action = Status [(''status'', JStr ''complete''), (''action'', JStr action)]"

definition complete_empty :: "string \<Rightarrow> out_line" where
  "complete_empty action =
     Status [(''status'', JStr ''complete''), (''action'', JStr action), (''results'', JArr [])]"

text \<open>
  \<open>if current_model_name != name: print(...); current_model = WhisperModel(name);
  current_model_name = name\<close>. When the constructor raises, the assignments do not
  happen and the exception reaches the handler of the loop (\<open>Inl\<close>).
\<close>

definition switch_model ::
  "'w server_env \<Rightarrow> json \<Rightarrow> 'w server_state \<Rightarrow> string \<times> 'w server_state + 'w server_state" where
  "switch_model env name st =
     (if current_model_name st \<noteq> name then
        (let st1 = emit [Text (''[SERVER] Switching to '' @ py_str env name @ '' model...'')] st;
             st2 = st1\<lparr>constructed := constructed st1 @ [name]\<rparr>
         in case construct env name of
              Some msg \<Rightarrow> Inl (msg, st2)
            | None \<Rightarrow>
                Inr (st2\<lparr>current_model := Backend name (length (constructed st1)),
                         current_model_name := name\<rparr>))
      else Inr st)"

text \<open>
  A handler that receives \<open>model\<close> builds a model of its own only when it is
  \<open>None\<close> (\<open>if model is None: model = WhisperModel(...)\<close>).
\<close>

definition built_inside :: "backend option \<Rightarrow> json \<Rightarrow> json list" where
  "built_inside model name = (case model of None \<Rightarrow> [name] | Some m \<Rightarrow> [])"

text \<open>
  Running a handler and then \<open>print(json.dumps({"status": "complete", "action": ...}))\<close>;
  an exception skips the print and is reported by \<open>except Exception as e\<close>.
\<close>

definition finish ::
  "string \<Rightarrow> 'w handler_result \<Rightarrow> 'w server_state \<Rightarrow> 'w server_state" where
  "finish action r st =
     (case r of (lines, raised, w) \<Rightarrow>
        (case raised of
           None \<Rightarrow> emit (map Text lines @ [complete action]) (st\<lparr>world := w\<rparr>)
         | Some msg \<Rightarrow> emit (map Text lines @ [error_line msg]) (st\<lparr>world := w\<rparr>)))"

text \<open>
  What \<open>run_semantic_search\<close> prints and whether it raises, path by path;
  \<open>name\<close> is the embedding model's name as printed and \<open>found\<close> prints the number
  of transcript files.
\<close>

fun run_semantic_search :: "string \<Rightarrow> (nat \<Rightarrow> string) \<Rightarrow> search_path \<Rightarrow> out_line list \<times> string option" where
  "run_semantic_search name found NotInstalled =
     ([Text ''[ERROR] sentence-transformers not installed. Run 'Install Libraries' in Settings.'',
       Status [(''status'', JStr ''error''),
               (''message'', JStr ''sentence-transformers not installed'')]], None)"
| "run_semantic_search name found (EmbedLoadFailed msg) =
     ([Text (''[SEMANTIC] Loading embedding model: '' @ name @ ''...''),
       Text (''[ERROR] Failed to load model '' @ name @ '': '' @ msg)], None)"
| "run_semantic_search name found NoTranscripts =
     ([Text (''[SEMANTIC] Loading embedding model: '' @ name @ ''...''),
       Text (''[SEMANTIC] Found '' @ found 0 @ '' transcript files''),
       complete_empty ''semantic_search''], None)"
| "run_semantic_search name found (NoChunks n) =
     ([Text (''[SEMANTIC] Loading embedding model: '' @ name @ ''...''),
       Text (''[SEMANTIC] Found '' @ found n @ '' transcript files''),
       Text ''[SEMANTIC] No content found in transcripts'',
       complete_empty ''semantic_search''], None)"
| "run_semantic_search name found (Searched lines) = (map Text lines, None)"
| "run_semantic_search name found (SearchRaised lines msg) = (map Text lines, Some msg)"

text \<open>What \<open>run_detect_meetings\<close> prints and whether it raises.\<close>

fun run_detect_meetings :: "detect_path \<Rightarrow> out_line list \<times> string option" where
  "run_detect_meetings NoTranscriptFiles =
     ([Text ''[DETECT] Found 0 transcript files to analyze'',
       complete_empty ''detect_meetings''], None)"
| "run_detect_meetings (Detected lines) = (map Text lines, None)"
| "run_detect_meetings (DetectRaised lines msg) = (map Text lines, Some msg)"

definition finish_lines ::
  "string \<Rightarrow> out_line list \<times> string option \<Rightarrow> 'w \<Rightarrow> 'w server_state \<Rightarrow> 'w server_state" where
  "finish_lines action r w st =
     (case r of (lines, raised) \<Rightarrow>
        (case raised of
           None \<Rightarrow> emit (lines @ [complete action]) (st\<lparr>world := w\<rparr>)
         | Some msg \<Rightarrow> emit (lines @ [error_line msg]) (st\<lparr>world := w\<rparr>)))"

fun py_type :: "json \<Rightarrow> string" where
  "py_type JNull = ''NoneType''"
| "py_type (JBool b) = ''bool''"
| "py_type (JInt n) = ''int''"
| "py_type (JNum x) = ''float''"
| "py_type (JStr s) = ''str''"
| "py_type (JArr xs) = ''list''"
| "py_type (JObj kv) = ''dict''"

text \<open>\<open>cmd.get("model", "large-v3")\<close>\<close>

definition requested_model :: "command \<Rightarrow> json" where
  "requested_model cmd = (case map_of cmd ''model'' of None \<Rightarrow> JStr ''large-v3'' | Some v \<Rightarrow> v)"

text \<open>
  The \<open>if\<close>/\<open>elif\<close> chain on \<open>action\<close> for a command that is a JSON object. There
  is no \<open>else\<close>: another action, or none, does nothing.
\<close>

definition dispatch ::
  "'w server_env \<Rightarrow> command \<Rightarrow> 'w server_state \<Rightarrow> 'w server_state \<times> control" where
  "dispatch env cmd st =
     (let action = map_of cmd ''action'' in
      if action = Some (JStr ''ping'') then
        (emit [Status [(''status'', JStr ''pong'')]] st, Continue)
      else if action = Some (JStr ''scan'') then
        (case switch_model env (JStr ''tiny.en'') st of
           Inl (msg, st1) \<Rightarrow> (emit [error_line msg] st1, Continue)
         | Inr st1 \<Rightarrow>
             (finish ''scan'' (batch_scanner env cmd (Some (current_model st1)) (world st1))
                (st1\<lparr>constructed := constructed st1 @
                       built_inside (Some (current_model st1)) (JStr ''tiny.en'')\<rparr>),
              Continue))
      else if action = Some (JStr ''vad_scan'') then
        (finish ''vad_scan'' (batch_vad_scan env cmd (world st)) st, Continue)
      else if action = Some (JStr ''transcribe'') then
        (case switch_model env (requested_model cmd) st of
           Inl (msg, st1) \<Rightarrow> (emit [error_line msg] st1, Continue)
         | Inr st1 \<Rightarrow>
             (finish ''transcribe'' (transcriber env cmd (Some (current_model st1)) (world st1))
                (st1\<lparr>constructed := constructed st1 @
                       built_inside (Some (current_model st1)) (JStr ''large-v3'')\<rparr>),
              Continue))
      else if action = Some (JStr ''semantic_search'') then
        (case semantic_search env cmd (world st) of (path, w) \<Rightarrow>
           (finish_lines ''semantic_search''
              (run_semantic_search
                 (py_str env (case map_of cmd ''embed_model'' of
                                None \<Rightarrow> JStr ''all-MiniLM-L6-v2'' | Some v \<Rightarrow> v))
                 (\<lambda>n. py_str env (JInt (int n))) path) w st,
            Continue))
      else if action = Some (JStr ''analyze'') then
        (finish ''analyze'' (analyze env cmd (world st)) st, Continue)
      else if action = Some (JStr ''detect_meetings'') then
        (case detect_meetings env cmd (world st) of (path, w) \<Rightarrow>
           (finish_lines ''detect_meetings'' (run_detect_meetings path) w st, Continue))
      else if action = Some (JStr ''exit'') then (st, Break)
      else (st, Continue))"

text \<open>
  One iteration of \<open>while True\<close> for a line that was read. The line is given by what
  \<open>json.loads\<close> makes of it: \<open>None\<close> when it raises \<open>JSONDecodeError\<close>. On a JSON
  value that is not an object, \<open>cmd.get\<close> raises \<open>AttributeError\<close>.
\<close>

definition server_step ::
  "'w server_env \<Rightarrow> 'w server_state \<Rightarrow> json option \<Rightarrow> 'w server_state \<times> control" where
  "server_step env st line =
     (case line of
        None \<Rightarrow> (emit [Text ''[ERROR] Invalid JSON command''] st, Continue)
      | Some (JObj cmd) \<Rightarrow> dispatch env cmd st
      | Some v \<Rightarrow>
          (emit [error_line ([CHR 0x27] @ py_type v @ [CHR 0x27] @
                             '' object has no attribute '' @ [CHR 0x27] @ ''get'' @ [CHR 0x27])] st,
           Continue))"

text \<open>The loop; the end of the list is the end of standard input.\<close>

fun server_loop ::
  "'w server_env \<Rightarrow> 'w server_state \<Rightarrow> json option list \<Rightarrow> 'w server_state" where
  "server_loop env st [] = st"
| "server_loop env st (line # rest) =
     (case server_step env st line of
        (st1, Continue) \<Rightarrow> server_loop env st1 rest
      | (st1, Break) \<Rightarrow> st1)"

text \<open>
  \<open>run_server\<close>: the tiny model is built first; when that fails the server prints
  one line and returns without reading a command (\<open>None\<close>).
\<close>

definition run_server :: "'w server_env \<Rightarrow> 'w \<Rightarrow> json option list \<Rightarrow> out_line list \<times> 'w server_state option" where
  "run_server env w lines =
     (let banner = [Text ''[SERVER] Initializing engine...'', Text ''[SERVER] Loading core models...'']
      in case construct env (JStr ''tiny.en'') of
           Some msg \<Rightarrow> (banner @ [Text (''[SERVER] Init failed: '' @ msg)], None)
         | None \<Rightarrow>
             (let st = server_loop env
                         \<lparr>scanner_model = Backend (JStr ''tiny.en'') 0,
                          current_model = Backend (JStr ''tiny.en'') 0,
                          current_model_name = JStr ''tiny.en'',
                          constructed = [JStr ''tiny.en''],
                          out = banner @ [Text ''[SERVER] Engine ready.''],
                          world = w\<rparr> lines
              in (out st, Some st)))"

definition new_lines :: "'w server_state \<Rightarrow> 'w server_state \<Rightarrow> out_line list" where
  "new_lines st st1 = drop (length (out st)) (out st1)"

definition fixed_actions :: "string list" where
  "fixed_actions =
     [''ping'', ''scan'', ''vad_scan'', ''transcribe'', ''semantic_search'', ''analyze'',
      ''detect_meetings'', ''exit'']"

definition known_action :: "command \<Rightarrow> bool" where
  "known_action cmd = (case map_of cmd ''action'' of Some (JStr a) \<Rightarrow> a \<in> set fixed_actions | _ \<Rightarrow> False)"

text \<open>The model a command asks for: only \<open>scan\<close> and \<open>transcribe\<close> ask for one.\<close>

definition requested_by :: "command \<Rightarrow> json option" where
  "requested_by cmd =
     (if map_of cmd ''action'' = Some (JStr ''scan'') then Some (JStr ''tiny.en'')
      else if map_of cmd ''action'' = Some (JStr ''transcribe'') then Some (requested_model cmd)
      else None)"

text \<open>The recorded name is the name the cached handle was built from.\<close>

definition cache_ok :: "'w server_state \<Rightarrow> bool" where
  "cache_ok st =
     (case current_model st of
        Backend name k \<Rightarrow> name = current_model_name st \<and> k < length (constructed st) \<and>
                          constructed st ! k = name)"

text \<open>
  The speech-model instances loaded between two commands: the objects the variables
  \<open>scanner_model\<close> and \<open>current_model\<close> refer to. An instance that
  \<open>current_model\<close> no longer refers to, and \<open>scanner_model\<close> does not either, is
  taken to be released.
\<close>

definition loaded :: "'w server_state \<Rightarrow> backend list" where
  "loaded st = remdups [scanner_model st, current_model st]"

definition is_status :: "out_line \<Rightarrow> bool" where
  "is_status l = (case l of Status kv \<Rightarrow> True | Text t \<Rightarrow> False)"

definition final_line :: "string \<Rightarrow> string option \<Rightarrow> out_line" where
  "final_line action raised = (case raised of None \<Rightarrow> complete action | Some msg \<Rightarrow> error_line msg)"

definition ex_server_env :: "unit server_env" where
  "ex_server_env =
     \<lparr>construct = (\<lambda>name. if name = JStr ''broken'' then Some ''model not found'' else None),
      py_str = (\<lambda>v. case v of JStr s \<Rightarrow> s | _ \<Rightarrow> ''?''),
      batch_scanner = (\<lambda>cmd m w. ([''[BATCH] Found 0 media files''], None, w)),
      batch_vad_scan = (\<lambda>cmd w. ([], Some ''ffmpeg failed'', w)),
      transcriber = (\<lambda>cmd m w. ([''[SAVED] out.txt''], None, w)),
      analyze = (\<lambda>cmd w. ([], None, w)),
      semantic_search = (\<lambda>cmd w. (NoTranscripts, w)),
      detect_meetings = (\<lambda>cmd w. (NoTranscriptFiles, w))\<rparr>"

definition ex_server_state :: "unit server_state" where
  "ex_server_state =
     \<lparr>scanner_model = Backend (JStr ''tiny.en'') 0,
      current_model = Backend (JStr ''tiny.en'') 0, current_model_name = JStr ''tiny.en'',
      constructed = [JStr ''tiny.en''], out = [], world = ()\<rparr>"

section \<open>Transcribing one window (\<open>run_transcriber\<close>)\<close>

text \<open>
  The file system as \<open>run_transcriber\<close> uses it: the text files by path, with their
  contents, and the directories. \<open>os.path.exists\<close> holds of both.
\<close>

record file_system =
  fs_files :: "string \<rightharpoonup> string"
  fs_dirs :: "string set"

definition path_exists :: "file_system \<Rightarrow> string \<Rightarrow> bool" where
  "path_exists fs p = (fs_files fs p \<noteq> None \<or> p \<in> fs_dirs fs)"

text \<open>
  What \<open>run_transcriber\<close> uses from outside. \<open>format_value n v\<close> is \<open>f"{v:.nf}"\<close>
  for an argument as the caller passes it, \<open>None\<close> when formatting raises (the
  server passes \<open>cmd.get("start")\<close>, any JSON value); \<open>format_float\<close> is the same
  for a float; \<open>value_str\<close> is \<open>str\<close>. \<open>new_model\<close> is \<open>WhisperModel(name, ...)\<close>
  and \<open>clip_transcribe model file clip\<close> is \<open>model.transcribe\<close> with
  \<open>clip_timestamps=clip\<close>, its segments read to the end; both give the message of
  the exception when they raise. \<open>makedirs dirs d\<close> is
  \<open>os.makedirs(d, exist_ok=True)\<close>: the directories it adds, or the message of the
  exception. \<open>opens_for_write\<close> tells whether \<open>open(path, mode)\<close> succeeds and
  \<open>encodes\<close> whether a string can be written as UTF-8. The file system effects of
  the speech backend and of loading a model are not part of the model.
\<close>

record transcriber_env =
  format_value :: "nat \<Rightarrow> json \<Rightarrow> string option"
  format_float :: "nat \<Rightarrow> rat \<Rightarrow> string"
  value_str :: "json \<Rightarrow> string"
  new_model :: "string \<Rightarrow> string + whisper_model"
  clip_transcribe :: "whisper_model \<Rightarrow> string \<Rightarrow> string \<Rightarrow> string + segment list"
  str_strip :: "string \<Rightarrow> string"
  os_path_basename :: "string \<Rightarrow> string"
  os_path_splitext :: "string \<Rightarrow> string \<times> string"
  os_path_join :: "string \<Rightarrow> string \<Rightarrow> string"
  os_path_abspath :: "string \<Rightarrow> string"
  makedirs :: "string set \<Rightarrow> string \<Rightarrow> string + string set"
  opens_for_write :: "file_system \<Rightarrow> string \<Rightarrow> bool"
  encodes :: "string \<Rightarrow> bool"

text \<open>
  The state a call works on: the file system, the names of the models constructed
  and the transcriptions run, each with its model, file and clip.
\<close>

record transcriber_state =
  tr_fs :: file_system
  tr_loads :: "string list"
  tr_calls :: "(whisper_model \<times> string \<times> string) list"

text \<open>The exceptions that leave \<open>run_transcriber\<close>, by the statement that raises.\<close>

datatype tr_error =
    FormatError
  | ModelError string
  | TranscribeError string
  | MakedirsError string
  | OpenError
  | EncodeError

text \<open>\<open>if model is None: model = WhisperModel(model_name, ...)\<close>\<close>

definition ensure_model ::
  "transcriber_env \<Rightarrow> whisper_model option \<Rightarrow> string \<Rightarrow> transcriber_state \<Rightarrow>
     (tr_error + whisper_model) \<times> transcriber_state" where
  "ensure_model env model model_name st =
     (case model of
        Some m \<Rightarrow> (Inr m, st)
      | None \<Rightarrow>
          (case new_model env model_name of
             Inl msg \<Rightarrow> (Inl (ModelError msg), st\<lparr>tr_loads := tr_loads st @ [model_name]\<rparr>)
           | Inr m \<Rightarrow> (Inr m, st\<lparr>tr_loads := tr_loads st @ [model_name]\<rparr>)))"

text \<open>\<open>f"[{s.start:.2f} - {s.end:.2f}] {s.text.strip()}"\<close>\<close>

definition segment_line :: "transcriber_env \<Rightarrow> segment \<Rightarrow> string" where
  "segment_line env s =
     ''['' @ format_float env 2 (seg_start s) @ '' - '' @ format_float env 2 (seg_end s) @
     ''] '' @ str_strip env (seg_text s)"

text \<open>The call of \<open>model.transcribe\<close> and the loop that builds \<open>lines\<close>.\<close>

definition transcribe_window ::
  "transcriber_env \<Rightarrow> whisper_model \<Rightarrow> string \<Rightarrow> json \<Rightarrow> json \<Rightarrow> transcriber_state \<Rightarrow>
     (tr_error + string list) \<times> transcriber_state" where
  "transcribe_window env m file_path start_ts end_ts st =
     (let clip = value_str env start_ts @ '','' @ value_str env end_ts;
          st1 = st\<lparr>tr_calls := tr_calls st @ [(m, file_path, clip)]\<rparr>
      in case clip_transcribe env m file_path clip of
           Inl msg \<Rightarrow> (Inl (TranscribeError msg), st1)
         | Inr segments \<Rightarrow> (Inr (map (segment_line env) segments), st1))"

text \<open>\<open>model_name.replace(".", "_").replace("-", "_")\<close>\<close>

definition safe_model :: "string \<Rightarrow> string" where
  "safe_model model_name =
     map (\<lambda>c. if c = CHR ''.'' \<or> c = CHR ''-'' then CHR ''_'' else c) model_name"

text \<open>
  The value of \<open>out_path\<close>; \<open>if output_dir:\<close> holds of a string that is not empty.
\<close>

definition out_path_of :: "transcriber_env \<Rightarrow> string \<Rightarrow> string \<Rightarrow> string option \<Rightarrow> string" where
  "out_path_of env file_path model_name output_dir =
     (let base_name = fst (os_path_splitext env (os_path_basename env file_path)) in
      case output_dir of
        Some d \<Rightarrow>
          if d \<noteq> [] then
            os_path_join env d (base_name @ ''_transcript_'' @ safe_model model_name @ ''.txt'')
          else fst (os_path_splitext env file_path) @ ''_transcript_'' @
               safe_model model_name @ ''.txt''
      | None \<Rightarrow> fst (os_path_splitext env file_path) @ ''_transcript_'' @
                safe_model model_name @ ''.txt'')"

text \<open>The branch on \<open>output_dir\<close>, with \<open>os.makedirs\<close>.\<close>

definition prepare_out_path ::
  "transcriber_env \<Rightarrow> string \<Rightarrow> string \<Rightarrow> string option \<Rightarrow> transcriber_state \<Rightarrow>
     (tr_error + string) \<times> transcriber_state" where
  "prepare_out_path env file_path model_name output_dir st =
     (case output_dir of
        Some d \<Rightarrow>
          if d \<noteq> [] then
            (case makedirs env (fs_dirs (tr_fs st)) d of
               Inl msg \<Rightarrow> (Inl (MakedirsError msg), st)
             | Inr made \<Rightarrow>
                 (Inr (out_path_of env file_path model_name output_dir),
                  st\<lparr>tr_fs := (tr_fs st)\<lparr>fs_dirs := fs_dirs (tr_fs st) \<union> made\<rparr>\<rparr>))
          else (Inr (out_path_of env file_path model_name output_dir), st)
      | None \<Rightarrow> (Inr (out_path_of env file_path model_name output_dir), st))"

text \<open>
  The \<open>with open(out_path, mode)\<close> block: the mode is append when the path exists;
  the strings are written in order, up to the first that cannot be encoded.
\<close>

definition write_transcript ::
  "transcriber_env \<Rightarrow> file_system \<Rightarrow> string \<Rightarrow> string \<Rightarrow> string \<Rightarrow> string \<Rightarrow> string list \<Rightarrow>
     (tr_error + unit) \<times> file_system" where
  "write_transcript env fs out_path start_s end_s file_path lines =
     (if \<not> opens_for_write env fs out_path then (Inl OpenError, fs)
      else
        let before = (if path_exists fs out_path
                      then (case fs_files fs out_path of Some c \<Rightarrow> c | None \<Rightarrow> []) else []);
            section = [''--- Transcription ['' @ start_s @ ''s - '' @ end_s @ ''s] ---'' @ [CHR 0x0A],
                       ''Source: '' @ os_path_abspath env file_path @ [CHR 0x0A]] @
                      map (\<lambda>line. line @ [CHR 0x0A]) lines @ [[CHR 0x0A]];
            written = takeWhile (encodes env) section;
            fs1 = fs\<lparr>fs_files := (fs_files fs)(out_path \<mapsto> before @ concat written)\<rparr>
        in if length written = length section then (Inr (), fs1) else (Inl EncodeError, fs1))"

text \<open>
  \<open>run_transcriber\<close>. The two \<open>print\<close> statements at the top format \<open>start\<close> and
  \<open>end\<close> with \<open>.1f\<close>, which raises for a value that is not a number.
\<close>

definition run_transcriber ::
  "transcriber_env \<Rightarrow> string \<Rightarrow> json \<Rightarrow> json \<Rightarrow> whisper_model option \<Rightarrow> string \<Rightarrow>
     string option \<Rightarrow> bool \<Rightarrow> transcriber_state \<Rightarrow> (tr_error + string list) \<times> transcriber_state" where
  "run_transcriber env file_path start_ts end_ts model model_name output_dir skip_existing st =
     (case format_value env 1 start_ts of
        None \<Rightarrow> (Inl FormatError, st)
      | Some start_s \<Rightarrow>
     (case format_value env 1 end_ts of
        None \<Rightarrow> (Inl FormatError, st)
      | Some end_s \<Rightarrow>
     (case ensure_model env model model_name st of
        (Inl e, st1) \<Rightarrow> (Inl e, st1)
      | (Inr m, st1) \<Rightarrow>
     (case transcribe_window env m file_path start_ts end_ts st1 of
        (Inl e, st2) \<Rightarrow> (Inl e, st2)
      | (Inr lines, st2) \<Rightarrow>
     (case prepare_out_path env file_path model_name output_dir st2 of
        (Inl e, st3) \<Rightarrow> (Inl e, st3)
      | (Inr out_path, st3) \<Rightarrow>
          if skip_existing \<and> path_exists (tr_fs st3) out_path then (Inr [], st3)
          else
            (case write_transcript env (tr_fs st3) out_path start_s end_s file_path lines of
               (Inl e, fs) \<Rightarrow> (Inl e, st3\<lparr>tr_fs := fs\<rparr>)
             | (Inr u, fs) \<Rightarrow> (Inr lines, st3\<lparr>tr_fs := fs\<rparr>)))))))"

text \<open>
  An example: a POSIX system where numbers print as a fixed text, the model loads,
  the backend finds one segment, and the transcript of \<open>/media/a.mp4\<close> for
  \<open>large-v3\<close> is already there.
\<close>

definition ex_transcriber_env :: transcriber_env where
  "ex_transcriber_env =
     \<lparr>format_value = (\<lambda>n v. case v of JInt i \<Rightarrow> Some ''0.0'' | JNum x \<Rightarrow> Some ''0.0''
                                | JBool b \<Rightarrow> Some ''0.0'' | _ \<Rightarrow> None),
      format_float = (\<lambda>n x. ''0.00''),
      value_str = (\<lambda>v. case v of JInt i \<Rightarrow> (if i = 0 then ''0'' else ''30'') | _ \<Rightarrow> ''None''),
      new_model = (\<lambda>name. Inr (WhisperModel name 0)),
      clip_transcribe = (\<lambda>m f clip. if f = ''/media/gone.mp4'' then Inl ''no such file''
                                     else Inr [seg 0 1]),
      str_strip = (\<lambda>s. s),
      os_path_basename = (\<lambda>p. rev (takeWhile (\<lambda>c. c \<noteq> CHR ''/'') (rev p))),
      os_path_splitext = splitext,
      os_path_join = path_join,
      os_path_abspath = (\<lambda>p. p),
      makedirs = (\<lambda>ds d. Inr {d}),
      opens_for_write = (\<lambda>fs p. True),
      encodes = (\<lambda>s. True)\<rparr>"

definition ex_transcriber_state :: transcriber_state where
  "ex_transcriber_state =
     \<lparr>tr_fs = \<lparr>fs_files = [''/media/a_transcript_large_v3.txt'' \<mapsto> ''old text''],
               fs_dirs = {''/media''}\<rparr>,
      tr_loads = [], tr_calls = []\<rparr>"

section \<open>Properties of segment clustering\<close>

lemma round_half_even_bounds:
  "\<lfloor>x\<rfloor> \<le> round_half_even x" "round_half_even x \<le> \<lfloor>x\<rfloor> + 1"
  by (simp_all add: round_half_even_def Let_def)

lemma round_half_even_mono:
  assumes "x \<le> y"
  shows "round_half_even x \<le> round_half_even y"
proof (cases "\<lfloor>x\<rfloor> = \<lfloor>y\<rfloor>")
  case True
  from assms have "x - of_int \<lfloor>x\<rfloor> \<le> y - of_int \<lfloor>x\<rfloor>" by simp
  with True show ?thesis
    by (auto simp add: round_half_even_def Let_def)
next
  case False
  from assms have "\<lfloor>x\<rfloor> \<le> \<lfloor>y\<rfloor>" by (rule floor_mono)
  with False have "\<lfloor>x\<rfloor> + 1 \<le> \<lfloor>y\<rfloor>" by simp
  with round_half_even_bounds(2) [of x] round_half_even_bounds(1) [of y]
  show ?thesis by linarith
qed

lemma py_round_mono: "x \<le> y \<Longrightarrow> py_round x n \<le> py_round y n"
proof -
  assume "x \<le> y"
  then have "x * 10 ^ n \<le> y * 10 ^ n" by (simp add: mult_right_mono)
  then have "round_half_even (x * 10 ^ n) \<le> round_half_even (y * 10 ^ n)"
    by (rule round_half_even_mono)
  then show ?thesis
    by (simp add: py_round_def divide_right_mono)
qed

lemma blocks_ordered_Nil: "blocks_ordered []"
  by (simp add: blocks_ordered_def)

lemma blocks_ordered_snoc:
  assumes "blocks_ordered bs" and "bounded_by bs (blk_start b)"
  shows "blocks_ordered (bs @ [b])"
proof -
  have s: "sorted (map blk_start (bs @ [b]))"
    using assms by (auto simp: blocks_ordered_def bounded_by_def sorted_append)
  have p: "blk_end ((bs @ [b]) ! i) \<le> blk_start ((bs @ [b]) ! j)"
    if "i < j" "j < length (bs @ [b])" for i j
  proof (cases "j < length bs")
    case True
    with that assms(1) show ?thesis
      by (simp add: blocks_ordered_def nth_append)
  next
    case False
    with that have j: "j = length bs" and i: "i < length bs" by simp_all
    from i have "bs ! i \<in> set bs" by simp
    with assms(2) have "blk_end (bs ! i) \<le> blk_start b" by (simp add: bounded_by_def)
    with i j show ?thesis by (simp add: nth_append)
  qed
  from s p show ?thesis unfolding blocks_ordered_def by blast
qed

lemma bounded_by_mono: "bounded_by bs x \<Longrightarrow> x \<le> y \<Longrightarrow> bounded_by bs y"
  by (fastforce simp: bounded_by_def)

lemma bounded_by_snoc:
  "bounded_by (bs @ [b]) x \<longleftrightarrow> bounded_by bs x \<and> blk_start b \<le> x \<and> blk_end b \<le> x"
  by (auto simp: bounded_by_def)

lemma timeline_Cons:
  "timeline (s # rest) = seg_start s # seg_end s # timeline rest"
  by (simp add: timeline_def)

lemma seg_start_in_timeline: "s \<in> set segs \<Longrightarrow> seg_start s \<in> set (timeline segs)"
  by (auto simp: timeline_def)

lemma sorted_timeline_Cons:
  assumes "sorted (timeline (s # rest))"
  shows "seg_start s \<le> seg_end s" "\<forall>t\<in>set rest. seg_end s \<le> seg_start t"
    "sorted (timeline rest)"
  using assms by (auto simp: timeline_Cons dest: seg_start_in_timeline)

lemma sorted_timeline_starts: "sorted (timeline segs) \<Longrightarrow> sorted (map seg_start segs)"
proof (induction segs)
  case Nil
  then show ?case by simp
next
  case (Cons s rest)
  from sorted_timeline_Cons [OF Cons.prems]
  have a: "seg_start s \<le> seg_end s" and b: "\<forall>t\<in>set rest. seg_end s \<le> seg_start t"
    and c: "sorted (timeline rest)" by simp_all
  from a b have "\<forall>t\<in>set rest. seg_start s \<le> seg_start t" by fastforce
  with Cons.IH [OF c] show ?case by simp
qed

lemma cl_inv_step:
  assumes inv: "cl_inv fsub T st (s # rest)"
    and srt: "sorted (map seg_start (s # rest))"
    and chr: "gap_sound fsub T \<or> sorted (timeline (s # rest))"
  shows "cl_inv fsub T (cluster_step fsub T st s) rest"
proof -
  define c where "c = (if current_start st = - 1 then seg_start s else current_start st)"
  have bo: "blocks_ordered (blocks st)"
    and bb: "bounded_by (blocks st) (py_round (current_start st) 2)"
    and cs: "current_start st \<noteq> - 1 \<or> blocks st \<noteq> [] \<Longrightarrow> current_start st \<le> seg_start s"
    and le: "gap_sound fsub T \<or> (last_end st \<noteq> - 1 \<longrightarrow> last_end st \<le> seg_start s)"
    using inv by (auto simp: cl_inv_def)
  have rest_ge: "\<forall>t\<in>set rest. seg_start s \<le> seg_start t"
    using srt by simp
  have c_le: "c \<le> seg_start s"
    using cs by (auto simp: c_def)
  have bb_c: "bounded_by (blocks st) (py_round c 2)"
  proof (cases "blocks st = []")
    case True
    then show ?thesis by (simp add: bounded_by_def)
  next
    case False
    then have "current_start st \<le> c" using cs by (auto simp: c_def)
    then show ?thesis using bb py_round_mono bounded_by_mono by blast
  qed
  have end_next: "gap_sound fsub T \<or> (\<forall>t\<in>set rest. seg_end s \<le> seg_start t)"
    using chr sorted_timeline_Cons(2) by blast
  show ?thesis
  proof (cases "last_end st \<noteq> - 1 \<and> fsub (seg_start s) (last_end st) > T")
    case False
    then have eq: "cluster_step fsub T st s =
        st\<lparr>segment_count := segment_count st + 1, current_start := c, last_end := seg_end s\<rparr>"
      by (auto simp: cluster_step_def Let_def c_def)
    show ?thesis
      unfolding eq cl_inv_def
      using bo bb_c c_le rest_ge end_next by fastforce
  next
    case True
    then have eq: "cluster_step fsub T st s =
        st\<lparr>segment_count := segment_count st + 1,
           blocks := blocks st @ [\<lparr>blk_start = py_round c 2, blk_end = py_round (last_end st) 2\<rparr>],
           current_start := seg_start s, last_end := seg_end s\<rparr>"
      by (auto simp: cluster_step_def Let_def c_def close_block_def)
    have "last_end st \<le> seg_start s"
    proof (cases "gap_sound fsub T")
      case g: True
      with True have "0 < fsub (seg_start s) (last_end st)" by (simp add: gap_sound_def)
      with g have "last_end st < seg_start s" unfolding gap_sound_def by blast
      then show ?thesis by simp
    next
      case False
      with True le show ?thesis by simp
    qed
    then have e_le: "py_round (last_end st) 2 \<le> py_round (seg_start s) 2"
      by (rule py_round_mono)
    from c_le have s_le: "py_round c 2 \<le> py_round (seg_start s) 2"
      by (rule py_round_mono)
    have 1: "blocks_ordered (blocks st @ [\<lparr>blk_start = py_round c 2, blk_end = py_round (last_end st) 2\<rparr>])"
      using bo bb_c by (simp add: blocks_ordered_snoc)
    have 2: "bounded_by (blocks st @ [\<lparr>blk_start = py_round c 2, blk_end = py_round (last_end st) 2\<rparr>])
               (py_round (seg_start s) 2)"
      using bounded_by_mono [OF bb_c s_le] e_le s_le by (simp add: bounded_by_snoc)
    show ?thesis
      unfolding eq cl_inv_def
      using 1 2 rest_ge end_next by simp
  qed
qed

lemma cl_inv_loop:
  assumes "cl_inv fsub T st segs" "sorted (map seg_start segs)" "gap_sound fsub T \<or> sorted (timeline segs)"
  shows "cl_inv fsub T (cluster_loop fsub T st segs) []"
  using assms
proof (induction segs arbitrary: st)
  case Nil
  then show ?case by simp
next
  case (Cons s rest)
  have "cl_inv fsub T (cluster_step fsub T st s) rest"
    using Cons.prems by (rule cl_inv_step)
  moreover have "sorted (map seg_start rest)" using Cons.prems(2) by simp
  moreover have "gap_sound fsub T \<or> sorted (timeline rest)"
    using Cons.prems(3) sorted_timeline_Cons(3) by blast
  ultimately show ?case using Cons.IH by simp
qed

lemma cl_inv_init: "cl_inv fsub T cluster_init segs"
  by (simp add: cl_inv_def cluster_init_def blocks_ordered_Nil bounded_by_def)

lemma cluster_blocks_ordered:
  assumes "sorted (map seg_start segs)" "gap_sound fsub T \<or> sorted (timeline segs)"
  shows "blocks_ordered (fst (cluster_segments fsub segs T))"
proof -
  let ?st = "cluster_loop fsub T cluster_init segs"
  have "cl_inv fsub T ?st []" using cl_inv_init assms by (rule cl_inv_loop)
  then have a: "blocks_ordered (blocks ?st)"
    and b: "bounded_by (blocks ?st) (py_round (current_start ?st) 2)"
    by (simp_all add: cl_inv_def)
  have "blocks_ordered (blocks ?st @ [close_block ?st])"
    using a b by (simp add: blocks_ordered_snoc close_block_def)
  with a show ?thesis by (simp add: cluster_segments_def Let_def)
qed

lemma count_inv_step: "count_inv st \<Longrightarrow> count_inv (cluster_step fsub T st s)"
  by (auto simp: count_inv_def cluster_step_def Let_def)

lemma count_inv_loop: "count_inv st \<Longrightarrow> count_inv (cluster_loop fsub T st segs)"
  by (induction segs arbitrary: st) (simp_all add: count_inv_step)

lemma segment_count_step: "segment_count (cluster_step fsub T st s) = segment_count st + 1"
  by (simp add: cluster_step_def Let_def)

lemma segment_count_loop:
  "segment_count (cluster_loop fsub T st segs) = segment_count st + length segs"
  by (induction segs arbitrary: st) (simp_all add: segment_count_step)

lemma cluster_block_count:
  "length (fst (cluster_segments fsub segs T)) \<le> length segs"
    "snd (cluster_segments fsub segs T) = length segs"
proof -
  let ?st = "cluster_loop fsub T cluster_init segs"
  have "count_inv cluster_init" by (simp add: count_inv_def cluster_init_def)
  then have "count_inv ?st" by (rule count_inv_loop)
  moreover have n: "segment_count ?st = length segs"
    by (simp add: segment_count_loop cluster_init_def)
  ultimately show "length (fst (cluster_segments fsub segs T)) \<le> length segs"
    by (auto simp: cluster_segments_def Let_def count_inv_def)
  from n show "snd (cluster_segments fsub segs T) = length segs"
    by (simp add: cluster_segments_def Let_def)
qed

text \<open>
  Claim C1. For a chronologically sorted segment list (the timestamps
  \<open>start\<^sub>1, end\<^sub>1, start\<^sub>2, end\<^sub>2, \<dots>\<close> never decrease), any gap
  threshold and whatever the subtraction of doubles yields, the blocks returned by \<open>cluster_segments\<close> are ordered by start, no
  block begins before an earlier block has ended, there are at most as many blocks
  as segments, the returned count is the number of segments, and the empty list
  yields no block and the count zero.
\<close>

theorem cluster_segments_ordered_disjoint:
  assumes "sorted (timeline segs)"
  shows "sorted (map blk_start (fst (cluster_segments fsub segs T))) \<and>
         (\<forall>i j. i < j \<and> j < length (fst (cluster_segments fsub segs T)) \<longrightarrow>
            blk_end (fst (cluster_segments fsub segs T) ! i)
              \<le> blk_start (fst (cluster_segments fsub segs T) ! j)) \<and>
         length (fst (cluster_segments fsub segs T)) \<le> length segs \<and>
         snd (cluster_segments fsub segs T) = length segs \<and>
         cluster_segments fsub [] T = ([], 0)"
proof -
  have "sorted (map seg_start segs)" using assms by (rule sorted_timeline_starts)
  then have "blocks_ordered (fst (cluster_segments fsub segs T))"
    using assms by (simp add: cluster_blocks_ordered)
  moreover have "cluster_segments fsub [] T = ([], 0)"
    by (simp add: cluster_segments_def cluster_init_def)
  ultimately show ?thesis
    using cluster_block_count [of fsub segs T] unfolding blocks_ordered_def by blast
qed

theorem cluster_segments_ordered_disjoint_witness:
  "sorted (timeline [seg 0 5, seg 10 15, seg 400 410]) \<and>
   cluster_segments exact_sub [seg 0 5, seg 10 15, seg 400 410] 180 = ([blk 0 15, blk 400 410], 3) \<and>
   sorted (map blk_start [blk 0 15, blk 400 410]) \<and>
   blk_end ([blk 0 15, blk 400 410] ! 0) \<le> blk_start ([blk 0 15, blk 400 410] ! 1)"
proof -
  have h: "sorted (timeline [seg 0 5, seg 10 15, seg 400 410])"
    by (simp add: timeline_def seg_def)
  have e: "cluster_segments exact_sub [seg 0 5, seg 10 15, seg 400 410] 180 = ([blk 0 15, blk 400 410], 3)"
    by (simp add: cluster_segments_def cluster_init_def cluster_step_def close_block_def exact_sub_def
        seg_def blk_def py_round_def round_half_even_def Let_def)
  from cluster_segments_ordered_disjoint [OF h, of exact_sub 180] h e show ?thesis
    by (simp add: blk_def)
qed

text \<open>
  The same ordering holds when only the segment starts are sorted (segments may
  overlap each other), provided the threshold is not negative.
\<close>

lemma cluster_segments_ordered_sorted_starts:
  assumes "sorted (map seg_start segs)" and "0 \<le> T"
    and "\<And>a b. 0 < fsub a b \<Longrightarrow> b < a"
  shows "blocks_ordered (fst (cluster_segments fsub segs T))"
  using assms by (intro cluster_blocks_ordered) (auto simp: gap_sound_def)

lemma cluster_loop_append:
  "cluster_loop fsub T st (xs @ ys) = cluster_loop fsub T (cluster_loop fsub T st xs) ys"
  by (induction xs arbitrary: st) simp_all

lemma last_end_loop_snoc: "last_end (cluster_loop fsub T st (xs @ [a])) = seg_end a"
  by (simp add: cluster_loop_append cluster_step_def Let_def)

lemma current_start_step_nonneg:
  "current_start st = - 1 \<or> 0 \<le> current_start st \<Longrightarrow> 0 \<le> seg_start s \<Longrightarrow>
     0 \<le> current_start (cluster_step fsub T st s)"
  by (auto simp: cluster_step_def Let_def)

lemma current_start_loop_nonneg:
  "current_start st = - 1 \<or> 0 \<le> current_start st \<Longrightarrow> \<forall>s\<in>set segs. 0 \<le> seg_start s \<Longrightarrow>
     segs \<noteq> [] \<Longrightarrow> 0 \<le> current_start (cluster_loop fsub T st segs)"
proof (induction segs arbitrary: st)
  case Nil
  then show ?case by simp
next
  case (Cons s rest)
  have c: "0 \<le> current_start (cluster_step fsub T st s)"
    using Cons.prems by (simp add: current_start_step_nonneg)
  show ?case
  proof (cases "rest = []")
    case True
    with c show ?thesis by simp
  next
    case False
    with Cons.IH [of "cluster_step fsub T st s"] c Cons.prems(2) show ?thesis by simp
  qed
qed

lemma cluster_after_snoc:
  assumes "\<forall>s\<in>set (pre @ [a]). 0 \<le> seg_start s" "0 \<le> seg_end a"
  shows "fst (cluster_segments fsub (pre @ [a]) T) =
           blocks (cluster_loop fsub T cluster_init (pre @ [a])) @
             [blk (py_round (current_start (cluster_loop fsub T cluster_init (pre @ [a]))) 2)
                  (py_round (seg_end a) 2)]"
    and "current_start (cluster_loop fsub T cluster_init (pre @ [a])) \<noteq> - 1"
proof -
  let ?st = "cluster_loop fsub T cluster_init (pre @ [a])"
  have "0 \<le> current_start ?st"
    using assms(1) by (intro current_start_loop_nonneg) (simp_all add: cluster_init_def)
  then show ne: "current_start ?st \<noteq> - 1" by simp
  then show "fst (cluster_segments fsub (pre @ [a]) T) =
      blocks ?st @ [blk (py_round (current_start ?st) 2) (py_round (seg_end a) 2)]"
    using last_end_loop_snoc [of fsub T cluster_init pre a]
    by (simp add: cluster_segments_def Let_def close_block_def blk_def)
qed

text \<open>
  Claim C2. Let segment \<open>b\<close> follow segment \<open>a\<close> in the input (timestamps are
  not negative), and let the gap be the value the program computes for
  \<open>segment.start - last_end\<close>, whatever rounding the subtraction of doubles applies.
  If the gap is at most the threshold, in particular when it equals it, no block is
  closed: the block holding \<open>a\<close> is the last block and it now ends at \<open>end b\<close>.
  If the gap is strictly greater, the block holding \<open>a\<close> is closed at \<open>end a\<close>
  and a new block opens at \<open>start b\<close>.
\<close>

theorem cluster_gap_boundary:
  assumes "\<forall>s\<in>set (pre @ [a, b]). 0 \<le> seg_start s \<and> 0 \<le> seg_end s"
  shows "fst (cluster_segments fsub (pre @ [a]) T) \<noteq> [] \<and>
         blk_end (last (fst (cluster_segments fsub (pre @ [a]) T))) = py_round (seg_end a) 2 \<and>
         (fsub (seg_start b) (seg_end a) \<le> T \<longrightarrow>
            fst (cluster_segments fsub (pre @ [a, b]) T) =
              butlast (fst (cluster_segments fsub (pre @ [a]) T)) @
                [(last (fst (cluster_segments fsub (pre @ [a]) T)))
                    \<lparr>blk_end := py_round (seg_end b) 2\<rparr>]) \<and>
         (fsub (seg_start b) (seg_end a) > T \<longrightarrow>
            fst (cluster_segments fsub (pre @ [a, b]) T) =
              fst (cluster_segments fsub (pre @ [a]) T) @
                [blk (py_round (seg_start b) 2) (py_round (seg_end b) 2)])"
proof -
  let ?st = "cluster_loop fsub T cluster_init (pre @ [a])"
  let ?st' = "cluster_loop fsub T cluster_init (pre @ [a, b])"
  have pa: "\<forall>s\<in>set (pre @ [a]). 0 \<le> seg_start s" and ea: "0 \<le> seg_end a"
    and sb: "0 \<le> seg_start b"
    using assms by auto
  note A = cluster_after_snoc [OF pa ea, of fsub T]
  have le: "last_end ?st = seg_end a" by (rule last_end_loop_snoc)
  have st': "?st' = cluster_step fsub T ?st b"
    using cluster_loop_append [of fsub T cluster_init "pre @ [a]" "[b]"] by simp
  have le': "last_end ?st' = seg_end b"
    using last_end_loop_snoc [of fsub T cluster_init "pre @ [a]" b] by simp
  have 1: "fst (cluster_segments fsub (pre @ [a]) T) \<noteq> []" using A(1) by simp
  have 2: "blk_end (last (fst (cluster_segments fsub (pre @ [a]) T))) = py_round (seg_end a) 2"
    using A(1) by (simp add: blk_def)
  have 3: "fst (cluster_segments fsub (pre @ [a, b]) T) =
              butlast (fst (cluster_segments fsub (pre @ [a]) T)) @
                [(last (fst (cluster_segments fsub (pre @ [a]) T)))
                    \<lparr>blk_end := py_round (seg_end b) 2\<rparr>]"
    if "fsub (seg_start b) (seg_end a) \<le> T"
  proof -
    from that le A(2) have "blocks ?st' = blocks ?st" "current_start ?st' = current_start ?st"
      unfolding st' by (simp_all add: cluster_step_def Let_def)
    with A le' show ?thesis
      by (simp add: cluster_segments_def Let_def close_block_def blk_def)
  qed
  have 4: "fst (cluster_segments fsub (pre @ [a, b]) T) =
              fst (cluster_segments fsub (pre @ [a]) T) @
                [blk (py_round (seg_start b) 2) (py_round (seg_end b) 2)]"
    if "fsub (seg_start b) (seg_end a) > T"
  proof -
    from that le A(2) ea have "blocks ?st' = blocks ?st @ [close_block ?st]"
      "current_start ?st' = seg_start b"
      unfolding st' by (simp_all add: cluster_step_def Let_def close_block_def)
    with A le le' sb show ?thesis
      by (simp add: cluster_segments_def Let_def close_block_def blk_def)
  qed
  from 1 2 3 4 show ?thesis by blast
qed

theorem cluster_gap_boundary_witness:
  "0 \<le> seg_start (seg 0 5) \<and> 0 \<le> seg_end (seg 0 5) \<and>
   0 \<le> seg_start (seg 185 190) \<and> 0 \<le> seg_end (seg 185 190) \<and>
   exact_sub (seg_start (seg 185 190)) (seg_end (seg 0 5)) = 180 \<and>
   fst (cluster_segments exact_sub [seg 0 5] 180) = [blk 0 5] \<and>
   fst (cluster_segments exact_sub [seg 0 5, seg 185 190] 180) = [blk 0 190] \<and>
   fst (cluster_segments exact_sub [seg 0 5, seg 185 190] 179) = [blk 0 5, blk 185 190] \<and>
   180 < d_190_71 - d_10_71 \<and>
   rounding_sub (seg_start (seg d_190_71 200)) (seg_end (seg 0 d_10_71)) = 180 \<and>
   fst (cluster_segments rounding_sub [seg 0 d_10_71, seg d_190_71 200] 180) = [blk 0 200]"
proof -
  have h: "\<forall>s\<in>set ([] @ [seg 0 5, seg 185 190]). 0 \<le> seg_start s \<and> 0 \<le> seg_end s"
    by (simp add: seg_def)
  have e: "fst (cluster_segments exact_sub [seg 0 5] T) = [blk 0 5]" for T
    by (simp add: cluster_segments_def cluster_init_def cluster_step_def close_block_def exact_sub_def
        seg_def blk_def py_round_def round_half_even_def Let_def)
  have r: "py_round 185 2 = 185" "py_round 190 2 = 190" "py_round 200 2 = 200" "py_round 0 2 = 0"
    by (simp_all add: py_round_def round_half_even_def Let_def)
  from cluster_gap_boundary [OF h, of exact_sub 180] cluster_gap_boundary [OF h, of exact_sub 179] h e r
  have 1: "0 \<le> seg_start (seg 0 5) \<and> 0 \<le> seg_end (seg 0 5) \<and>
     0 \<le> seg_start (seg 185 190) \<and> 0 \<le> seg_end (seg 185 190) \<and>
     exact_sub (seg_start (seg 185 190)) (seg_end (seg 0 5)) = 180 \<and>
     fst (cluster_segments exact_sub [seg 0 5] 180) = [blk 0 5] \<and>
     fst (cluster_segments exact_sub [seg 0 5, seg 185 190] 180) = [blk 0 190] \<and>
     fst (cluster_segments exact_sub [seg 0 5, seg 185 190] 179) = [blk 0 5, blk 185 190]"
    by (simp add: seg_def blk_def exact_sub_def)
  have pos: "0 \<le> d_190_71" "0 \<le> d_10_71" and gt: "180 < d_190_71 - d_10_71"
    by (simp_all add: d_190_71_def d_10_71_def)
  have g: "rounding_sub (seg_start (seg d_190_71 200)) (seg_end (seg 0 d_10_71)) = 180"
    by (simp add: rounding_sub_def seg_def)
  have h2: "\<forall>s\<in>set ([] @ [seg 0 d_10_71, seg d_190_71 200]). 0 \<le> seg_start s \<and> 0 \<le> seg_end s"
    using pos by (simp add: seg_def)
  have ne: "d_10_71 \<noteq> - 1" using pos by simp
  have one: "fst (cluster_segments rounding_sub [seg 0 d_10_71] 180) =
               [blk 0 (py_round d_10_71 2)]"
    using ne by (simp add: cluster_segments_def cluster_init_def cluster_step_def close_block_def
        seg_def blk_def r Let_def)
  from cluster_gap_boundary [OF h2, of rounding_sub 180, THEN conjunct2, THEN conjunct2,
      THEN conjunct1] g
  have 2: "fst (cluster_segments rounding_sub [seg 0 d_10_71, seg d_190_71 200] 180) = [blk 0 200]"
    by (simp add: one [unfolded seg_def] blk_def seg_def r)
  from 1 gt g 2 show ?thesis by (intro conjI) simp_all
qed

section \<open>Properties of media discovery\<close>








lemma visit_files_all:
  assumes "\<forall>l. log_writes env l"
  shows "visit_files env dirpath files mf =
           (mf @ map (os_join env dirpath) (filter (is_media env) files), True)"
  using assms by (induction files arbitrary: mf) (simp_all add: is_media_def Let_def)

lemma walk_loop_all:
  assumes "\<forall>l. log_writes env l"
  shows "walk_loop env entries mf = (mf @ concat (map (visit env) entries), True)"
  using assms
proof (induction entries arbitrary: mf)
  case Nil
  then show ?case by simp
next
  case (Cons e rest)
  obtain dirpath dirs files where e: "e = (dirpath, dirs, files)" by (cases e)
  from Cons show ?case
    by (simp add: e visit_files_all visit_def)
qed

lemma find_media_files_all:
  assumes "log_opens env (os_join env (os_dirname env
             (abspath env (normalize_directory env directory))) ''scan_debug.log'')"
    and "\<forall>l. log_writes env l"
  shows "find_media_files env directory =
           sort (concat (map (visit env) (walk env (normalize_directory env directory))))"
  using assms by (simp add: find_media_files_def Let_def walk_loop_all)

lemma example_media:
  "is_media (posix_env w) ''a.mp4''" "\<not> is_media (posix_env w) ''b.txt''"
  "is_media (posix_env w) ''c.MKV''"
proof -
  have "lower (snd (splitext ''a.mp4'')) \<in> set MEDIA_EXTENSIONS"
    "lower (snd (splitext ''b.txt'')) \<notin> set MEDIA_EXTENSIONS"
    "lower (snd (splitext ''c.MKV'')) \<in> set MEDIA_EXTENSIONS"
    by code_simp+
  then show "is_media (posix_env w) ''a.mp4''" "\<not> is_media (posix_env w) ''b.txt''"
    "is_media (posix_env w) ''c.MKV''"
    by (simp_all add: is_media_def posix_env_def)
qed

lemma example_discovery:
  "find_media_files (posix_env example_walk) ''/media'' = [''/media/a.mp4'', ''/media/c.MKV'']"
proof -
  have n: "normalize_directory (posix_env example_walk) ''/media'' = ''/media''"
    by (simp add: normalize_directory_def posix_env_def)
  have o: "log_opens (posix_env example_walk) p" "\<forall>l. log_writes (posix_env example_walk) l"
    for p by (simp_all add: posix_env_def)
  have w: "walk (posix_env example_walk) ''/media'' =
             [(''/media'', [], [''c.MKV'', ''b.txt'', ''a.mp4''])]"
    by (simp add: posix_env_def example_walk_def)
  have j: "os_join (posix_env example_walk) ''/media'' ''c.MKV'' = ''/media/c.MKV''"
    "os_join (posix_env example_walk) ''/media'' ''a.mp4'' = ''/media/a.mp4''"
    by (simp_all add: posix_env_def path_join_def)
  have v: "visit (posix_env example_walk) (''/media'', [], [''c.MKV'', ''b.txt'', ''a.mp4''])
             = [''/media/c.MKV'', ''/media/a.mp4'']"
    by (simp add: visit_def example_media j)
  have s: "sort [''/media/c.MKV'', ''/media/a.mp4''] = [''/media/a.mp4'', ''/media/c.MKV'']"
    by code_simp
  show ?thesis
    unfolding find_media_files_all [OF o] n w by (simp add: v s)
qed




section \<open>Properties of the batch scanners\<close>

lemma scan_file_simps:
  "results (scan_file process f st) = results st @ [fst (process f)]"
  "scanned (scan_file process f st) = scanned st @ [f]"
  "files_with_voice (scan_file process f st) =
     files_with_voice st + (if snd (process f) then 1 else 0)"
  by (simp_all add: scan_file_def split: prod.splits)

lemma scan_loop_step_scan:
  assumes "\<not> skips skip ex f"
    and "skip \<Longrightarrow> ex f \<noteq> None \<Longrightarrow> py_in ''error'' (the (ex f)) \<noteq> None"
  shows "scan_loop skip ex process (f # rest) st =
           scan_loop skip ex process rest (scan_file process f st)"
  using assms by (auto simp: skips_def split: option.splits bool.splits)

lemma scan_loop_Inr:
  assumes "scan_loop skip ex process files st = Inr st'"
  shows "results st' = results st @ map (resumed skip ex process) files \<and>
         scanned st' = scanned st @ filter (\<lambda>f. \<not> skips skip ex f) files \<and>
         files_with_voice st' =
           files_with_voice st + length (filter (voiced skip ex process) files)"
  using assms
proof (induction files arbitrary: st)
  case Nil
  then show ?case by simp
next
  case (Cons f rest)
  show ?case
  proof (cases "skips skip ex f")
    case False
    have "scan_loop skip ex process rest (scan_file process f st) = Inr st'"
      using Cons.prems False
      by (auto simp: skips_def split: option.splits bool.splits if_splits)
    from Cons.IH [OF this] False show ?thesis
      by (auto simp: scan_file_simps resumed_def voiced_def split: option.splits)
  next
    case True
    then obtain prev where p: "skip" "ex f = Some prev" "py_in ''error'' prev = Some False"
      by (auto simp: skips_def split: option.splits)
    from Cons.prems p obtain v b where v: "get_segments_found prev = Inr v" "py_gt_zero v = Some b"
      and r: "scan_loop skip ex process rest
                (st\<lparr>results := results st @ [prev],
                    files_with_voice := files_with_voice st + (if b then 1 else 0)\<rparr>) = Inr st'"
      by (auto split: sum.splits option.splits)
    from v have cv: "counts_voice prev = b" by (simp add: counts_voice_def)
    from Cons.IH [OF r] True p cv show ?thesis
      by (auto simp: resumed_def voiced_def)
  qed
qed

lemma scan_loop_total:
  assumes "\<forall>f\<in>set files. \<forall>prev. skip \<and> ex f = Some prev \<longrightarrow>
             py_in ''error'' prev \<noteq> None \<and> (py_in ''error'' prev = Some False \<longrightarrow> count_ok prev)"
  shows "\<exists>st'. scan_loop skip ex process files st = Inr st'"
  using assms
proof (induction files arbitrary: st)
  case Nil
  then show ?case by simp
next
  case (Cons f rest)
  then have ih: "\<exists>st'. scan_loop skip ex process rest s = Inr st'" for s by simp
  show ?case
  proof (cases "skip \<and> ex f \<noteq> None")
    case False
    then show ?thesis using ih by (auto split: option.splits)
  next
    case True
    then obtain prev where p: "skip" "ex f = Some prev" by auto
    with Cons.prems have e: "py_in ''error'' prev \<noteq> None"
      and c: "py_in ''error'' prev = Some False \<Longrightarrow> count_ok prev" by auto
    show ?thesis
    proof (cases "py_in ''error'' prev = Some False")
      case True
      from c [OF True] obtain v b where "get_segments_found prev = Inr v" "py_gt_zero v = Some b"
        by (auto simp: count_ok_def split: sum.splits)
      with p True ih show ?thesis by simp
    next
      case False
      with e have "py_in ''error'' prev = Some True" by auto
      with p ih show ?thesis by simp
    qed
  qed
qed

lemma entry_file_SomeD:
  "entry_file r = Some f \<Longrightarrow> \<exists>kv. r = JObj kv \<and> map_of kv ''file'' = Some (JStr f)"
  by (auto simp: entry_file_def split: json.splits option.splits)

lemma load_loop_entry:
  assumes "entry_file r = Some f"
  shows "load_loop m (r # rs) = load_loop (m(f \<mapsto> r)) rs"
proof -
  from entry_file_SomeD [OF assms] obtain kv where "r = JObj kv" "map_of kv ''file'' = Some (JStr f)"
    by blast
  then show ?thesis by simp
qed

lemma load_loop_range:
  "load_loop m rs f = Some r \<Longrightarrow> m f = Some r \<or> (r \<in> set rs \<and> entry_file r = Some f)"
proof (induction rs arbitrary: m)
  case Nil
  then show ?case by simp
next
  case (Cons a rs)
  show ?case
  proof (cases "\<exists>g. entry_file a = Some g")
    case True
    then obtain g where g: "entry_file a = Some g" by blast
    from Cons.prems have "load_loop (m(g \<mapsto> a)) rs f = Some r"
      by (simp only: load_loop_entry [OF g])
    from Cons.IH [OF this] g show ?thesis by (auto split: if_splits)
  next
    case False
    then have nf: "\<And>kv f. a = JObj kv \<Longrightarrow> map_of kv ''file'' \<noteq> Some (JStr f)"
      by (auto simp: entry_file_def)
    have "load_loop m (a # rs) = m \<or> load_loop m (a # rs) = load_loop m rs"
      using nf by (cases a) (auto split: option.splits json.splits bool.splits)
    with Cons.prems Cons.IH [of m] show ?thesis by auto
  qed
qed



lemma load_loop_map:
  assumes "\<forall>x\<in>set xs. entry_file (g x) = Some x"
  shows "load_loop m (map g xs) = (\<lambda>f. if f \<in> set xs then Some (g f) else m f)"
  using assms
proof (induction xs arbitrary: m)
  case Nil
  then show ?case by simp
next
  case (Cons x xs)
  then have e: "entry_file (g x) = Some x" by simp
  have "load_loop m (map g (x # xs)) = load_loop (m(x \<mapsto> g x)) (map g xs)"
    by (simp only: list.map load_loop_entry [OF e])
  also have "\<dots> = (\<lambda>f. if f \<in> set xs then Some (g f) else (m(x \<mapsto> g x)) f)"
    using Cons by simp
  also have "\<dots> = (\<lambda>f. if f \<in> set (x # xs) then Some (g f) else m f)"
    by auto
  finally show ?case .
qed

lemma load_existing_range:
  "load_existing skip file f = Some r \<Longrightarrow> entry_file r = Some f"
proof -
  assume a: "load_existing skip file f = Some r"
  then obtain rs where "load_loop Map.empty rs f = Some r"
    by (auto simp: load_existing_def split: if_splits option.splits file_data.splits json.splits)
  from load_loop_range [OF this] show ?thesis by simp
qed


lemma vad_process_ok: "entry_ok f (vad_process env threshold f)"
  by (auto simp: entry_ok_def vad_process_def error_entry_def entry_file_def count_ok_def
      counts_voice_def split: sum.splits prod.splits)

lemma cluster_nonempty_count:
  assumes "cluster_segments sub segs T = (bs, n)" and "bs \<noteq> []"
  shows "0 < n"
proof -
  have "length (fst (cluster_segments sub segs T)) \<le> length segs"
    "snd (cluster_segments sub segs T) = length segs"
    by (rule cluster_block_count)+
  with assms show ?thesis by (cases segs) auto
qed

lemma whisper_process_ok: "entry_ok f (whisper_process env model use_vad f)"
proof (cases "transcribe env model f use_vad")
  case (Inl msg)
  then show ?thesis
    by (simp add: entry_ok_def whisper_process_def error_entry_def entry_file_def)
next
  case (Inr p)
  obtain segs dur where p: "p = (segs, dur)" by (cases p)
  obtain bs n where c: "cluster_segments (minus_float env) segs 180 = (bs, n)"
    by (cases "cluster_segments (minus_float env) segs 180")
  show ?thesis
  proof (cases "bs = []")
    case True
    with Inr p c show ?thesis
      by (simp add: entry_ok_def whisper_process_def entry_file_def count_ok_def counts_voice_def)
  next
    case False
    with c have "0 < n" by (rule cluster_nonempty_count)
    with False Inr p c show ?thesis
      by (simp add: entry_ok_def whisper_process_def entry_file_def count_ok_def counts_voice_def)
  qed
qed

lemma entry_file_resumed:
  assumes "\<And>f. entry_file (fst (process f)) = Some f"
    and "\<And>f r. ex f = Some r \<Longrightarrow> entry_file r = Some f"
  shows "entry_file (resumed skip ex process f) = Some f"
  using assms by (auto simp: resumed_def split: option.splits)

lemma run_batch_vad_scan_Inr:
  "run_batch_vad_scan env directory threshold report_path skip d = Inr res \<longleftrightarrow>
     (\<exists>st. scan_loop skip (load_existing skip (d (the_report_path env report_path)))
              (vad_process env threshold) (find_media_files (os env) directory) scan_init = Inr st \<and>
           writable env (the_report_path env report_path) \<and>
           res = \<lparr>br_disk = d(the_report_path env report_path \<mapsto> Parsed
                     (vad_report env directory (length (find_media_files (os env) directory))
                        st threshold)),
                  br_report =
                     vad_report env directory (length (find_media_files (os env) directory))
                        st threshold,
                  br_scanned = scanned st\<rparr>)"
  by (auto simp: run_batch_vad_scan_def Let_def write_report_def split: sum.splits)

lemma run_batch_scanner_Inr:
  "run_batch_scanner env directory use_vad report_path model skip d = Inr res \<longleftrightarrow>
     (\<exists>m st. resolve_model env model = Inr m \<and>
           scan_loop skip (load_existing skip (d (the_report_path env report_path)))
              (whisper_process env m use_vad) (find_media_files (os env) directory) scan_init = Inr st \<and>
           writable env (the_report_path env report_path) \<and>
           res = \<lparr>br_disk = d(the_report_path env report_path \<mapsto> Parsed
                     (whisper_report env directory (length (find_media_files (os env) directory))
                        st (Some m))),
                  br_report =
                     whisper_report env directory (length (find_media_files (os env) directory))
                        st (Some m),
                  br_scanned = scanned st\<rparr>)"
  by (auto simp: run_batch_scanner_def Let_def write_report_def split: sum.splits)

lemma report_results_vad [simp]:
  "report_results (vad_report env directory n st threshold) = results st"
  by (simp add: report_results_def vad_report_def)

lemma report_results_whisper [simp]:
  "report_results (whisper_report env directory n st model) = results st"
  by (simp add: report_results_def whisper_report_def)




lemma scan_loop_Inr_count_ok:
  assumes "scan_loop skip ex process files st = Inr st'"
    and "f \<in> set files" and "skips skip ex f" and "ex f = Some prev"
  shows "count_ok prev"
  using assms
proof (induction files arbitrary: st)
  case Nil
  then show ?case by simp
next
  case (Cons g rest)
  show ?case
  proof (cases "g = f")
    case True
    with Cons.prems have "skip" "py_in ''error'' prev = Some False"
      by (auto simp: skips_def)
    with Cons.prems(1,4) True show ?thesis
      by (auto simp: count_ok_def split: sum.splits option.splits)
  next
    case False
    with Cons.prems have f: "f \<in> set rest" by simp
    from Cons.prems(1) obtain s where "scan_loop skip ex process rest s = Inr st'"
      by (auto split: option.splits bool.splits sum.splits if_splits)
    from Cons.IH [OF this f Cons.prems(3,4)] show ?thesis .
  qed
qed

lemma rescan_generic:
  assumes run1: "scan_loop skip1 ex1 process files scan_init = Inr st1"
    and noerr: "\<forall>e\<in>set (results st1). py_in ''error'' e = Some False"
    and ok: "\<And>f. entry_ok f (process f)"
    and ex1: "\<And>f r. ex1 f = Some r \<Longrightarrow> entry_file r = Some f"
  shows "\<exists>st2. scan_loop True (load_loop Map.empty (results st1)) process files scan_init = Inr st2 \<and>
           results st2 = results st1 \<and> files_with_voice st2 = files_with_voice st1 \<and>
           scanned st2 = []"
proof -
  let ?g = "resumed skip1 ex1 process"
  let ?ex2 = "load_loop Map.empty (results st1)"
  from scan_loop_Inr [OF run1]
  have res1: "results st1 = map ?g files"
    and v1: "files_with_voice st1 = length (filter (voiced skip1 ex1 process) files)"
    by (simp_all add: scan_init_def)
  have ef: "entry_file (?g x) = Some x" for x
    using ok ex1 by (intro entry_file_resumed) (auto simp: entry_ok_def)
  have ex2: "?ex2 = (\<lambda>f. if f \<in> set files then Some (?g f) else None)"
    unfolding res1 using ef by (intro load_loop_map) simp
  have ne: "py_in ''error'' (?g f) = Some False" if "f \<in> set files" for f
    using noerr that unfolding res1 by simp
  have cv: "count_ok (?g f) \<and> counts_voice (?g f) = voiced skip1 ex1 process f"
    if f: "f \<in> set files" for f
  proof (cases "skips skip1 ex1 f")
    case True
    then obtain prev where p: "ex1 f = Some prev" by (auto simp: skips_def split: option.splits)
    from scan_loop_Inr_count_ok [OF run1 f True p] True p show ?thesis
      by (simp add: resumed_def voiced_def)
  next
    case False
    then have g: "?g f = fst (process f)" and v: "voiced skip1 ex1 process f = snd (process f)"
      by (auto simp: resumed_def voiced_def split: option.splits)
    from ne [OF f] g ok [of f] v show ?thesis by (auto simp: entry_ok_def)
  qed
  have sk: "skips True ?ex2 f" if "f \<in> set files" for f
    using that ne by (simp add: skips_def ex2)
  have "\<forall>f\<in>set files. \<forall>prev. True \<and> ?ex2 f = Some prev \<longrightarrow>
          py_in ''error'' prev \<noteq> None \<and> (py_in ''error'' prev = Some False \<longrightarrow> count_ok prev)"
    using ne cv by (auto simp: ex2)
  then obtain st2 where st2: "scan_loop True ?ex2 process files scan_init = Inr st2"
    using scan_loop_total by blast
  from scan_loop_Inr [OF st2]
  have res2: "results st2 = map (resumed True ?ex2 process) files"
    and sc2: "scanned st2 = filter (\<lambda>f. \<not> skips True ?ex2 f) files"
    and v2: "files_with_voice st2 = length (filter (voiced True ?ex2 process) files)"
    by (simp_all add: scan_init_def)
  have a: "map (resumed True ?ex2 process) files = map ?g files"
  proof (rule map_cong [OF refl])
    fix f assume f: "f \<in> set files"
    with sk [OF f] show "resumed True ?ex2 process f = ?g f"
      by (simp add: resumed_def [of True] ex2)
  qed
  have b: "filter (voiced True ?ex2 process) files = filter (voiced skip1 ex1 process) files"
  proof (rule filter_cong [OF refl])
    fix f assume f: "f \<in> set files"
    with sk [OF f] cv [OF f] show "voiced True ?ex2 process f = voiced skip1 ex1 process f"
      by (simp add: voiced_def [of True] ex2)
  qed
  have c: "filter (\<lambda>f. \<not> skips True ?ex2 f) files = []"
    using sk by (simp add: filter_empty_conv)
  from st2 res2 sc2 v2 a b c res1 v1 show ?thesis by simp
qed

text \<open>
  Claim C9. If a VAD batch run completes and none of the entries it saved records an
  error, then a second run with \<open>skip_existing\<close>, on the disk the first run left and
  with only the clock changed, completes, scans no file, and saves a report that
  agrees with the first one in every field but \<open>date\<close>.
\<close>

theorem resume_idempotent:
  assumes "run_batch_vad_scan env directory threshold report_path skip1 d = Inr res1"
    and "\<forall>e\<in>set (report_results (br_report res1)). py_in ''error'' e = Some False"
  shows "\<exists>res2. run_batch_vad_scan (env\<lparr>now := later\<rparr>) directory threshold report_path True
                   (br_disk res1) = Inr res2 \<and>
           br_scanned res2 = [] \<and>
           report_results (br_report res2) = report_results (br_report res1) \<and>
           (\<forall>k. k \<noteq> ''date'' \<longrightarrow> field k (br_report res2) = field k (br_report res1)) \<and>
           field ''date'' (br_report res2) = Some (JStr later)"
proof -
  let ?path = "the_report_path env report_path"
  let ?files = "find_media_files (os env) directory"
  let ?env2 = "env\<lparr>now := later\<rparr>"
  from assms(1) obtain st1 where
    st1: "scan_loop skip1 (load_existing skip1 (d ?path)) (vad_process env threshold) ?files
            scan_init = Inr st1"
    and w: "writable env ?path"
    and r1: "res1 = \<lparr>br_disk = d(?path \<mapsto> Parsed (vad_report env directory (length ?files) st1 threshold)),
                     br_report = vad_report env directory (length ?files) st1 threshold,
                     br_scanned = scanned st1\<rparr>"
    unfolding run_batch_vad_scan_Inr by blast
  from assms(2) have noerr: "\<forall>e\<in>set (results st1). py_in ''error'' e = Some False"
    by (simp add: r1)
  have "\<exists>st2. scan_loop True (load_loop Map.empty (results st1)) (vad_process env threshold)
            ?files scan_init = Inr st2 \<and>
           results st2 = results st1 \<and> files_with_voice st2 = files_with_voice st1 \<and>
           scanned st2 = []"
  proof (rule rescan_generic [OF st1 noerr vad_process_ok])
    fix f r
    assume "load_existing skip1 (d ?path) f = Some r"
    then show "entry_file r = Some f" by (rule load_existing_range)
  qed
  then obtain st2 where
    st2: "scan_loop True (load_loop Map.empty (results st1)) (vad_process env threshold) ?files
            scan_init = Inr st2"
    and eq: "results st2 = results st1" "files_with_voice st2 = files_with_voice st1"
    and sc: "scanned st2 = []"
    by blast
  have p2: "the_report_path ?env2 report_path = ?path"
    by (simp add: the_report_path_def split: option.splits)
  have ex2: "load_existing True (br_disk res1 ?path) = load_loop Map.empty (results st1)"
    by (simp add: r1 load_existing_def vad_report_def)
  have vp: "vad_process ?env2 threshold = vad_process env threshold"
    by (rule ext) (simp add: vad_process_def run_vad_scan_def)
  let ?rep2 = "vad_report ?env2 directory (length ?files) st2 threshold"
  let ?res2 = "\<lparr>br_disk = (br_disk res1)(?path \<mapsto> Parsed ?rep2), br_report = ?rep2,
                br_scanned = scanned st2\<rparr>"
  have run2: "run_batch_vad_scan ?env2 directory threshold report_path True (br_disk res1)
                = Inr ?res2"
    unfolding run_batch_vad_scan_Inr p2 ex2 vp using st2 w by simp
  have f: "\<forall>k. k \<noteq> ''date'' \<longrightarrow> field k ?rep2 = field k (br_report res1)"
    by (simp add: r1 field_def vad_report_def eq)
  have dt: "field ''date'' ?rep2 = Some (JStr later)"
    by (simp add: field_def vad_report_def)
  have rr: "report_results ?rep2 = report_results (br_report res1)"
    by (simp add: r1 eq)
  from run2 sc f dt rr show ?thesis
    by (intro exI [of _ ?res2]) simp
qed

lemma ex_files: "find_media_files (os ex_scan_env) ''/media'' = [''/media/a.mp4'', ''/media/c.MKV'']"
  by (simp add: ex_scan_env_def example_discovery)

lemma ex_existing:
  "load_existing True (ex_disk ''/r.json'') =
     [''/media/a.mp4'' \<mapsto> ex_entry_a, ''/media/c.MKV'' \<mapsto> ex_entry_c, ''/old/z.mp4'' \<mapsto> ex_entry_z]"
  by (simp add: load_existing_def ex_disk_def ex_prior_def ex_entry_a_def ex_entry_c_def
      ex_entry_z_def error_entry_def)

lemma ex_rounds:
  "py_round (1 / 1000) 2 = 0" "py_round 2 2 = 2" "py_round 10 (Suc 0) = 10"
  "py_round (1999 / 1000) (Suc 0) = 2"
  by code_simp+

lemma ex_process_c: "vad_process ex_scan_env (1 / 2) ''/media/c.MKV'' = (ex_new_c, True)"
  by (simp add: vad_process_def run_vad_scan_def ex_scan_env_def ex_vad_def ex_new_c_def
      block_json_def ex_rounds)

lemma ex_loop:
  "scan_loop True (load_existing True (ex_disk ''/r.json'')) (vad_process ex_scan_env (1 / 2))
     [''/media/a.mp4'', ''/media/c.MKV''] scan_init =
   Inr \<lparr>results = [ex_entry_a, ex_new_c], files_with_voice = 2, scanned = [''/media/c.MKV'']\<rparr>"
  unfolding ex_existing
  by (simp add: scan_init_def scan_file_def ex_process_c ex_entry_a_def ex_entry_c_def
      error_entry_def)

lemma example_run:
  "run_batch_vad_scan ex_scan_env ''/media'' (1 / 2) (Some ''/r.json'') True ex_disk = Inr ex_result"
proof -
  have p: "the_report_path ex_scan_env (Some ''/r.json'') = ''/r.json''"
    by (simp add: the_report_path_def)
  show ?thesis
    unfolding run_batch_vad_scan_def Let_def ex_files p ex_loop
    by (simp add: write_report_def ex_scan_env_def vad_report_def ex_result_def ex_report_def)
qed

lemma ex_entries_facts:
  "entry_file ex_entry_a = Some ''/media/a.mp4''" "entry_file ex_entry_c = Some ''/media/c.MKV''"
  "entry_file ex_entry_z = Some ''/old/z.mp4''"
  "count_ok ex_entry_a" "count_ok ex_entry_c" "count_ok ex_entry_z"
  "py_in ''error'' ex_entry_a = Some False" "py_in ''error'' ex_entry_c = Some True"
  "py_in ''error'' ex_new_c = Some False"
  by (simp_all add: entry_file_def count_ok_def ex_entry_a_def ex_entry_c_def ex_entry_z_def
      ex_new_c_def error_entry_def)


text \<open>
  Claim C4 as stated fails: the prior report of the example holds an entry for
  \<open>/old/z.mp4\<close>, which is not discovered, and the report saved by the resumed run
  does not contain it.
\<close>

theorem old_entries_dropped:
  "run_batch_vad_scan ex_scan_env ''/media'' (1 / 2) (Some ''/r.json'') True ex_disk = Inr ex_result \<and>
   ex_disk ''/r.json'' = Some (Parsed ex_prior) \<and>
   ex_entry_z \<in> set (report_results ex_prior) \<and>
   br_disk ex_result ''/r.json'' = Some (Parsed (br_report ex_result)) \<and>
   ex_entry_z \<notin> set (report_results (br_report ex_result))"
  using example_run
  by (simp add: ex_disk_def ex_result_def report_results_def ex_prior_def ex_report_def
      ex_entry_z_def ex_entry_a_def ex_new_c_def)

text \<open>
  Claim C4, amended. The report a batch run saves replaces the file at the report
  path and holds exactly one entry per discovered file, in discovery order: the prior
  entry, unchanged, where the file is skipped, and the freshly produced entry
  otherwise. Every saved entry therefore names a discovered file.
\<close>

theorem resumed_report_covers_discovery:
  "(\<forall>res. run_batch_vad_scan env directory threshold report_path skip d = Inr res \<longrightarrow>
      br_disk res = d(the_report_path env report_path \<mapsto> Parsed (br_report res)) \<and>
      map entry_file (report_results (br_report res)) =
        map Some (find_media_files (os env) directory) \<and>
      report_results (br_report res) =
        map (resumed skip (load_existing skip (d (the_report_path env report_path)))
               (vad_process env threshold))
            (find_media_files (os env) directory)) \<and>
   (\<forall>res m. run_batch_scanner env directory use_vad report_path model skip d = Inr res \<and>
            resolve_model env model = Inr m \<longrightarrow>
      br_disk res = d(the_report_path env report_path \<mapsto> Parsed (br_report res)) \<and>
      map entry_file (report_results (br_report res)) =
        map Some (find_media_files (os env) directory) \<and>
      report_results (br_report res) =
        map (resumed skip (load_existing skip (d (the_report_path env report_path)))
               (whisper_process env m use_vad))
            (find_media_files (os env) directory))"
proof -
  let ?ex = "load_existing skip (d (the_report_path env report_path))"
  let ?files = "find_media_files (os env) directory"
  have ef: "map entry_file (map (resumed skip ?ex process) ?files) = map Some ?files"
    if "\<And>f. entry_ok f (process f)" for process
  proof -
    have "entry_file (resumed skip ?ex process f) = Some f" for f
      using that load_existing_range by (intro entry_file_resumed) (auto simp: entry_ok_def)
    then show ?thesis by simp
  qed
  have 1: "br_disk res = d(the_report_path env report_path \<mapsto> Parsed (br_report res)) \<and>
      map entry_file (report_results (br_report res)) = map Some ?files \<and>
      report_results (br_report res) = map (resumed skip ?ex (vad_process env threshold)) ?files"
    if "run_batch_vad_scan env directory threshold report_path skip d = Inr res" for res
  proof -
    from that obtain st where
      st: "scan_loop skip ?ex (vad_process env threshold) ?files scan_init = Inr st"
      and r: "res = \<lparr>br_disk = d(the_report_path env report_path \<mapsto> Parsed
                      (vad_report env directory (length ?files) st threshold)),
                    br_report = vad_report env directory (length ?files) st threshold,
                    br_scanned = scanned st\<rparr>"
      unfolding run_batch_vad_scan_Inr by blast
    from scan_loop_Inr [OF st]
    have "results st = map (resumed skip ?ex (vad_process env threshold)) ?files"
      by (simp add: scan_init_def)
    with r ef [of "vad_process env threshold"] vad_process_ok show ?thesis by simp
  qed
  have 2: "br_disk res = d(the_report_path env report_path \<mapsto> Parsed (br_report res)) \<and>
      map entry_file (report_results (br_report res)) = map Some ?files \<and>
      report_results (br_report res) = map (resumed skip ?ex (whisper_process env m use_vad)) ?files"
    if "run_batch_scanner env directory use_vad report_path model skip d = Inr res"
      and m: "resolve_model env model = Inr m" for res m
  proof -
    from that obtain st where
      st: "scan_loop skip ?ex (whisper_process env m use_vad) ?files scan_init = Inr st"
      and r: "res = \<lparr>br_disk = d(the_report_path env report_path \<mapsto> Parsed
                      (whisper_report env directory (length ?files) st (Some m))),
                    br_report = whisper_report env directory (length ?files) st (Some m),
                    br_scanned = scanned st\<rparr>"
      unfolding run_batch_scanner_Inr by auto
    from scan_loop_Inr [OF st]
    have "results st = map (resumed skip ?ex (whisper_process env m use_vad)) ?files"
      by (simp add: scan_init_def)
    with r ef [of "whisper_process env m use_vad"] whisper_process_ok show ?thesis by simp
  qed
  from 1 2 show ?thesis by blast
qed

theorem resumed_report_covers_discovery_witness:
  "run_batch_vad_scan ex_scan_env ''/media'' (1 / 2) (Some ''/r.json'') True ex_disk = Inr ex_result \<and>
   br_disk ex_result = ex_disk(''/r.json'' \<mapsto> Parsed (br_report ex_result)) \<and>
   map entry_file (report_results (br_report ex_result)) =
     [Some ''/media/a.mp4'', Some ''/media/c.MKV'']"
proof -
  note T = resumed_report_covers_discovery [of ex_scan_env "''/media''" "1 / 2" "Some ''/r.json''" True
      ex_disk True None, THEN conjunct1, rule_format, OF example_run]
  have 1: "br_disk ex_result = ex_disk(''/r.json'' \<mapsto> Parsed (br_report ex_result))"
    using T [THEN conjunct1] by (simp add: the_report_path_def)
  have 2: "map entry_file (report_results (br_report ex_result)) =
             [Some ''/media/a.mp4'', Some ''/media/c.MKV'']"
    using T [THEN conjunct2, THEN conjunct1] by (simp add: ex_files)
  from example_run 1 2 show ?thesis by (intro conjI)
qed

theorem resume_idempotent_witness:
  "run_batch_vad_scan ex_scan_env ''/media'' (1 / 2) (Some ''/r.json'') True ex_disk = Inr ex_result \<and>
   py_in ''error'' ex_entry_a = Some False \<and> py_in ''error'' ex_new_c = Some False \<and>
   report_results (br_report ex_result) = [ex_entry_a, ex_new_c] \<and>
   (\<exists>res2. run_batch_vad_scan (ex_scan_env\<lparr>now := ''2026-01-03''\<rparr>) ''/media'' (1 / 2)
             (Some ''/r.json'') True (br_disk ex_result) = Inr res2 \<and>
           br_scanned res2 = [] \<and>
           report_results (br_report res2) = [ex_entry_a, ex_new_c] \<and>
           field ''files_with_voice'' (br_report res2) = Some (JInt 2) \<and>
           field ''date'' (br_report res2) = Some (JStr ''2026-01-03''))"
proof -
  have rr: "report_results (br_report ex_result) = [ex_entry_a, ex_new_c]"
    by (simp add: ex_result_def ex_report_def report_results_def)
  have ne: "\<forall>e\<in>set (report_results (br_report ex_result)). py_in ''error'' e = Some False"
    by (simp add: rr ex_entries_facts)
  have fv: "field ''files_with_voice'' (br_report ex_result) = Some (JInt 2)"
    by (simp add: ex_result_def ex_report_def field_def)
  from resume_idempotent [OF example_run ne, of "''2026-01-03''"] obtain res2 where
    "run_batch_vad_scan (ex_scan_env\<lparr>now := ''2026-01-03''\<rparr>) ''/media'' (1 / 2)
             (Some ''/r.json'') True (br_disk ex_result) = Inr res2"
    "br_scanned res2 = []"
    "report_results (br_report res2) = report_results (br_report ex_result)"
    "\<forall>k. k \<noteq> ''date'' \<longrightarrow> field k (br_report res2) = field k (br_report ex_result)"
    "field ''date'' (br_report res2) = Some (JStr ''2026-01-03'')"
    by blast
  then have "\<exists>res2. run_batch_vad_scan (ex_scan_env\<lparr>now := ''2026-01-03''\<rparr>) ''/media'' (1 / 2)
             (Some ''/r.json'') True (br_disk ex_result) = Inr res2 \<and>
           br_scanned res2 = [] \<and>
           report_results (br_report res2) = [ex_entry_a, ex_new_c] \<and>
           field ''files_with_voice'' (br_report res2) = Some (JInt 2) \<and>
           field ''date'' (br_report res2) = Some (JStr ''2026-01-03'')"
    using rr fv by (intro exI [of _ res2]) simp
  with example_run rr ex_entries_facts(7,9) show ?thesis by (intro conjI)
qed

section \<open>Properties of the command server\<close>

lemma emit_simps [simp]:
  "out (emit ls st) = out st @ ls" "current_model (emit ls st) = current_model st"
  "current_model_name (emit ls st) = current_model_name st"
  "constructed (emit ls st) = constructed st" "world (emit ls st) = world st"
  by (simp_all add: emit_def)

lemma finish_simps [simp]:
  "current_model (finish a r st) = current_model st"
  "current_model_name (finish a r st) = current_model_name st"
  "constructed (finish a r st) = constructed st"
  by (simp_all add: finish_def split: prod.splits option.splits)

lemma finish_lines_simps [simp]:
  "current_model (finish_lines a r w st) = current_model st"
  "current_model_name (finish_lines a r w st) = current_model_name st"
  "constructed (finish_lines a r w st) = constructed st"
  by (simp_all add: finish_lines_def split: prod.splits option.splits)

lemma switch_same:
  "current_model_name st = name \<Longrightarrow> switch_model env name st = Inr st"
  by (simp add: switch_model_def)

lemma switch_ok:
  assumes "current_model_name st \<noteq> name" and "construct env name = None"
  shows "\<exists>st1. switch_model env name st = Inr st1 \<and>
           constructed st1 = constructed st @ [name] \<and>
           current_model st1 = Backend name (length (constructed st)) \<and>
           current_model_name st1 = name \<and> world st1 = world st \<and>
           out st1 = out st @ [Text (''[SERVER] Switching to '' @ py_str env name @ '' model...'')]"
  using assms by (simp add: switch_model_def Let_def)

lemma switch_fail:
  assumes "current_model_name st \<noteq> name" and "construct env name = Some msg"
  shows "\<exists>st1. switch_model env name st = Inl (msg, st1) \<and>
           constructed st1 = constructed st @ [name] \<and>
           current_model st1 = current_model st \<and>
           current_model_name st1 = current_model_name st \<and> world st1 = world st \<and>
           out st1 = out st @ [Text (''[SERVER] Switching to '' @ py_str env name @ '' model...'')]"
  using assms by (simp add: switch_model_def Let_def)

lemma dispatch_scan:
  assumes "map_of cmd ''action'' = Some (JStr ''scan'')"
  shows "dispatch env cmd st =
     (case switch_model env (JStr ''tiny.en'') st of
        Inl (msg, st1) \<Rightarrow> (emit [error_line msg] st1, Continue)
      | Inr st1 \<Rightarrow>
          (finish ''scan'' (batch_scanner env cmd (Some (current_model st1)) (world st1))
             (st1\<lparr>constructed := constructed st1 @
                    built_inside (Some (current_model st1)) (JStr ''tiny.en'')\<rparr>),
           Continue))"
  using assms by (simp add: dispatch_def)

lemma dispatch_transcribe:
  assumes "map_of cmd ''action'' = Some (JStr ''transcribe'')"
  shows "dispatch env cmd st =
     (case switch_model env (requested_model cmd) st of
        Inl (msg, st1) \<Rightarrow> (emit [error_line msg] st1, Continue)
      | Inr st1 \<Rightarrow>
          (finish ''transcribe'' (transcriber env cmd (Some (current_model st1)) (world st1))
             (st1\<lparr>constructed := constructed st1 @
                    built_inside (Some (current_model st1)) (JStr ''large-v3'')\<rparr>),
           Continue))"
  using assms by (simp add: dispatch_def)

lemma dispatch_other_model:
  assumes "map_of cmd ''action'' \<noteq> Some (JStr ''scan'')"
    and "map_of cmd ''action'' \<noteq> Some (JStr ''transcribe'')"
  shows "current_model (fst (dispatch env cmd st)) = current_model st \<and>
         current_model_name (fst (dispatch env cmd st)) = current_model_name st \<and>
         constructed (fst (dispatch env cmd st)) = constructed st"
  using assms by (simp add: dispatch_def Let_def split: prod.splits)

lemma switched_handler:
  fixes r :: "'w handler_result"
  assumes d: "\<And>st1. dispatch env cmd st =
     (case switch_model env name st of
        Inl (msg, st1) \<Rightarrow> (emit [error_line msg] st1, Continue)
      | Inr st1 \<Rightarrow>
          (finish a (h (Some (current_model st1)) (world st1))
             (st1\<lparr>constructed := constructed st1 @ built_inside (Some (current_model st1)) n\<rparr>),
           Continue))"
  shows "if current_model_name st = name
         then current_model (fst (dispatch env cmd st)) = current_model st \<and>
              current_model_name (fst (dispatch env cmd st)) = name \<and>
              constructed (fst (dispatch env cmd st)) = constructed st
         else constructed (fst (dispatch env cmd st)) = constructed st @ [name] \<and>
              (case construct env name of
                 None \<Rightarrow> current_model (fst (dispatch env cmd st)) =
                            Backend name (length (constructed st)) \<and>
                          current_model_name (fst (dispatch env cmd st)) = name
               | Some msg \<Rightarrow> current_model (fst (dispatch env cmd st)) = current_model st \<and>
                             current_model_name (fst (dispatch env cmd st)) =
                               current_model_name st)"
proof (cases "current_model_name st = name")
  case True
  then show ?thesis
    unfolding d by (simp add: switch_same built_inside_def)
next
  case False
  show ?thesis
  proof (cases "construct env name")
    case None
    from switch_ok [OF False None] obtain st1 where
      "switch_model env name st = Inr st1" "constructed st1 = constructed st @ [name]"
      "current_model st1 = Backend name (length (constructed st))" "current_model_name st1 = name"
      by blast
    with False None show ?thesis
      unfolding d by (simp add: built_inside_def)
  next
    case (Some msg)
    from switch_fail [OF False Some] obtain st1 where
      "switch_model env name st = Inl (msg, st1)" "constructed st1 = constructed st @ [name]"
      "current_model st1 = current_model st" "current_model_name st1 = current_model_name st"
      by blast
    with False Some show ?thesis
      unfolding d by simp
  qed
qed

lemma cache_step:
  "(case requested_by cmd of
      None \<Rightarrow> current_model (fst (dispatch env cmd st)) = current_model st \<and>
              current_model_name (fst (dispatch env cmd st)) = current_model_name st \<and>
              constructed (fst (dispatch env cmd st)) = constructed st
    | Some name \<Rightarrow>
        if current_model_name st = name
        then current_model (fst (dispatch env cmd st)) = current_model st \<and>
             current_model_name (fst (dispatch env cmd st)) = name \<and>
             constructed (fst (dispatch env cmd st)) = constructed st
        else constructed (fst (dispatch env cmd st)) = constructed st @ [name] \<and>
             (case construct env name of
                None \<Rightarrow> current_model (fst (dispatch env cmd st)) =
                           Backend name (length (constructed st)) \<and>
                         current_model_name (fst (dispatch env cmd st)) = name
              | Some msg \<Rightarrow> current_model (fst (dispatch env cmd st)) = current_model st \<and>
                            current_model_name (fst (dispatch env cmd st)) =
                              current_model_name st))"
proof (cases "map_of cmd ''action'' = Some (JStr ''scan'')")
  case True
  then have r: "requested_by cmd = Some (JStr ''tiny.en'')" by (simp add: requested_by_def)
  show ?thesis
    unfolding r option.case
    by (rule switched_handler [where a = "''scan''" and h = "batch_scanner env cmd"
          and n = "JStr ''tiny.en''"]) (rule dispatch_scan [OF True])
next
  case False
  show ?thesis
  proof (cases "map_of cmd ''action'' = Some (JStr ''transcribe'')")
    case True
    with False have r: "requested_by cmd = Some (requested_model cmd)"
      by (simp add: requested_by_def)
    show ?thesis
      unfolding r option.case
      by (rule switched_handler [where a = "''transcribe''" and h = "transcriber env cmd"
            and n = "JStr ''large-v3''"]) (rule dispatch_transcribe [OF True])
  next
    case F2: False
    with False have r: "requested_by cmd = None" by (simp add: requested_by_def)
    show ?thesis
      unfolding r option.case using dispatch_other_model [OF False F2] .
  qed
qed

lemma cache_ok_step: "cache_ok st \<Longrightarrow> cache_ok (fst (dispatch env cmd st))"
proof -
  assume ok: "cache_ok st"
  let ?st = "fst (dispatch env cmd st)"
  obtain nm k where b: "current_model st = Backend nm k" by (cases "current_model st")
  with ok have k: "nm = current_model_name st" "k < length (constructed st)"
    "constructed st ! k = nm" by (simp_all add: cache_ok_def)
  note S = cache_step [where cmd = cmd and env = env and st = st]
  have keep: "cache_ok ?st"
    if "current_model ?st = current_model st" "current_model_name ?st = current_model_name st"
      "constructed ?st = constructed st \<or> (\<exists>x. constructed ?st = constructed st @ [x])"
    using that b k by (auto simp: cache_ok_def nth_append)
  have new: "cache_ok ?st"
    if "current_model ?st = Backend name (length (constructed st))"
      "current_model_name ?st = name" "constructed ?st = constructed st @ [name]" for name
    using that by (simp add: cache_ok_def)
  show ?thesis
  proof (cases "requested_by cmd")
    case None
    with S show ?thesis by (intro keep) simp_all
  next
    case (Some name)
    show ?thesis
    proof (cases "current_model_name st = name")
      case True
      with S Some show ?thesis by (intro keep) simp_all
    next
      case False
      show ?thesis
      proof (cases "construct env name")
        case None
        with S Some False show ?thesis by (intro new [of name]) simp_all
      next
        case (Some msg)
        with S \<open>requested_by cmd = Some name\<close> False show ?thesis
          by (intro keep) simp_all
      qed
    qed
  qed
qed

lemma new_lines_emit:
  assumes "out st1 = out st @ xs"
  shows "new_lines st (emit ls st1) = new_lines st st1 @ ls"
  using assms by (simp add: new_lines_def)

lemma new_lines_finish:
  assumes "out st1 = out st @ xs"
  shows "new_lines st (finish a (lines, raised, w) st1) =
           new_lines st st1 @ map Text lines @ [final_line a raised]"
  using assms by (simp add: new_lines_def finish_def final_line_def split: option.splits)

lemma new_lines_self [simp]: "new_lines st st = []"
  by (simp add: new_lines_def)

lemma switch_out:
  "switch_model env name st = Inr st1 \<Longrightarrow>
     out st1 = out st @ (if current_model_name st = name then []
        else [Text (''[SERVER] Switching to '' @ py_str env name @ '' model...'')])"
  "switch_model env name st = Inl (msg, st1) \<Longrightarrow>
     out st1 = out st @ [Text (''[SERVER] Switching to '' @ py_str env name @ '' model...'')]"
  by (auto simp: switch_model_def Let_def split: if_splits option.splits)

lemma switched_lines:
  fixes h :: "backend option \<Rightarrow> 'w \<Rightarrow> 'w handler_result"
  assumes d: "dispatch env cmd st =
     (case switch_model env name st of
        Inl (msg, st1) \<Rightarrow> (emit [error_line msg] st1, Continue)
      | Inr st1 \<Rightarrow>
          (finish a (h (Some (current_model st1)) (world st1))
             (st1\<lparr>constructed := constructed st1 @ built_inside (Some (current_model st1)) n\<rparr>),
           Continue))"
  shows "case switch_model env name st of
           Inl (msg, st1) \<Rightarrow>
             new_lines st (fst (dispatch env cmd st)) = new_lines st st1 @ [error_line msg]
         | Inr st1 \<Rightarrow>
             (case h (Some (current_model st1)) (world st1) of (lines, raised, w) \<Rightarrow>
                new_lines st (fst (dispatch env cmd st)) =
                  new_lines st st1 @ map Text lines @ [final_line a raised])"
proof (cases "switch_model env name st")
  case (Inl p)
  obtain msg st1 where p: "p = (msg, st1)" by (cases p)
  from switch_out(2) [of env name st msg st1] Inl p
  have "out st1 = out st @ [Text (''[SERVER] Switching to '' @ py_str env name @ '' model...'')]"
    by simp
  from new_lines_emit [OF this] Inl p show ?thesis
    unfolding d by simp
next
  case (Inr st1)
  obtain lines raised w where r: "h (Some (current_model st1)) (world st1) = (lines, raised, w)"
    by (cases "h (Some (current_model st1)) (world st1)")
  let ?st2 = "st1\<lparr>constructed := constructed st1 @ built_inside (Some (current_model st1)) n\<rparr>"
  from switch_out(1) [OF Inr] have "out ?st2 = out st @ (if current_model_name st = name then []
        else [Text (''[SERVER] Switching to '' @ py_str env name @ '' model...'')])"
    by simp
  from new_lines_finish [OF this, of a lines raised w]
  have "new_lines st (finish a (lines, raised, w) ?st2) =
          new_lines st st1 @ map Text lines @ [final_line a raised]"
    by (simp add: new_lines_def)
  with Inr r show ?thesis
    unfolding d by simp
qed

lemma simple_lines:
  assumes "map_of cmd ''action'' = Some (JStr ''vad_scan'')"
  shows "case batch_vad_scan env cmd (world st) of (lines, raised, w) \<Rightarrow>
           new_lines st (fst (dispatch env cmd st)) =
             map Text lines @ [final_line ''vad_scan'' raised]"
proof -
  have o: "out st = out st @ []" by simp
  obtain lines raised w where r: "batch_vad_scan env cmd (world st) = (lines, raised, w)"
    by (cases "batch_vad_scan env cmd (world st)")
  from assms have "dispatch env cmd st = (finish ''vad_scan'' (lines, raised, w) st, Continue)"
    by (simp add: dispatch_def r)
  with new_lines_finish [OF o, of "''vad_scan''" lines raised w] r show ?thesis by simp
qed

lemma analyze_lines:
  assumes "map_of cmd ''action'' = Some (JStr ''analyze'')"
  shows "case analyze env cmd (world st) of (lines, raised, w) \<Rightarrow>
           new_lines st (fst (dispatch env cmd st)) =
             map Text lines @ [final_line ''analyze'' raised]"
proof -
  have o: "out st = out st @ []" by simp
  obtain lines raised w where r: "analyze env cmd (world st) = (lines, raised, w)"
    by (cases "analyze env cmd (world st)")
  from assms have "dispatch env cmd st = (finish ''analyze'' (lines, raised, w) st, Continue)"
    by (simp add: dispatch_def r)
  with new_lines_finish [OF o, of "''analyze''" lines raised w] r show ?thesis by simp
qed

lemma ping_lines:
  assumes "map_of cmd ''action'' = Some (JStr ''ping'')"
  shows "new_lines st (fst (dispatch env cmd st)) = [Status [(''status'', JStr ''pong'')]]"
  using assms by (simp add: dispatch_def new_lines_def)

lemma exit_stops:
  assumes "map_of cmd ''action'' = Some (JStr ''exit'')"
  shows "dispatch env cmd st = (st, Break)"
  using assms by (simp add: dispatch_def)

lemma unknown_ignored:
  assumes "\<not> known_action cmd"
  shows "dispatch env cmd st = (st, Continue)"
proof -
  have "map_of cmd ''action'' \<noteq> Some (JStr a)" if "a \<in> set fixed_actions" for a
    using assms that by (auto simp: known_action_def)
  then have "map_of cmd ''action'' \<noteq> Some (JStr ''ping'')"
    "map_of cmd ''action'' \<noteq> Some (JStr ''scan'')"
    "map_of cmd ''action'' \<noteq> Some (JStr ''vad_scan'')"
    "map_of cmd ''action'' \<noteq> Some (JStr ''transcribe'')"
    "map_of cmd ''action'' \<noteq> Some (JStr ''semantic_search'')"
    "map_of cmd ''action'' \<noteq> Some (JStr ''analyze'')"
    "map_of cmd ''action'' \<noteq> Some (JStr ''detect_meetings'')"
    "map_of cmd ''action'' \<noteq> Some (JStr ''exit'')"
    by (simp_all add: fixed_actions_def)
  then show ?thesis by (simp add: dispatch_def)
qed

lemma ex_env_simps:
  "construct ex_server_env (JStr ''large-v3'') = None"
  "construct ex_server_env (JStr ''tiny.en'') = None"
  "py_str ex_server_env (JStr ''large-v3'') = ''large-v3''"
  "batch_vad_scan ex_server_env cmd w = ([], Some ''ffmpeg failed'', w)"
  "transcriber ex_server_env cmd m w = ([''[SAVED] out.txt''], None, w)"
  "semantic_search ex_server_env cmd w = (NoTranscripts, w)"
  by (simp_all add: ex_server_env_def)

lemma ex_state_simps:
  "current_model ex_server_state = Backend (JStr ''tiny.en'') 0"
  "current_model_name ex_server_state = JStr ''tiny.en''"
  "constructed ex_server_state = [JStr ''tiny.en'']"
  "out ex_server_state = []"
  by (simp_all add: ex_server_state_def)

lemma scanner_emit [simp]: "scanner_model (emit ls st) = scanner_model st"
  by (simp add: emit_def)

lemma scanner_finish [simp]: "scanner_model (finish a r st) = scanner_model st"
  by (simp add: finish_def split: prod.splits option.splits)

lemma scanner_finish_lines [simp]: "scanner_model (finish_lines a r w st) = scanner_model st"
  by (simp add: finish_lines_def split: prod.splits option.splits)

lemma scanner_switch:
  "switch_model env n st = Inr st1 \<Longrightarrow> scanner_model st1 = scanner_model st"
  "switch_model env n st = Inl (msg, st1) \<Longrightarrow> scanner_model st1 = scanner_model st"
  by (auto simp: switch_model_def Let_def split: if_splits option.splits)

lemma scanner_switched:
  "scanner_model (fst (case switch_model env n st of
       Inl (msg, st1) \<Rightarrow> (emit [error_line msg] st1, Continue)
     | Inr st1 \<Rightarrow> (finish a (h st1) (st1\<lparr>constructed := c st1\<rparr>), Continue))) =
   scanner_model st"
proof (cases "switch_model env n st")
  case (Inl p)
  obtain msg st1 where p: "p = (msg, st1)" by (cases p)
  from Inl p scanner_switch(2) [of env n st msg st1] show ?thesis by simp
next
  case (Inr st1)
  with scanner_switch(1) [of env n st st1] show ?thesis by simp
qed

lemma scanner_step: "scanner_model (fst (dispatch env cmd st)) = scanner_model st"
  unfolding dispatch_def Let_def
  by (simp add: scanner_switched split: prod.splits)

lemma scanner_server_step: "scanner_model (fst (server_step env st line)) = scanner_model st"
  by (simp add: server_step_def scanner_step split: option.splits json.splits)

lemma cache_ok_emit [simp]: "cache_ok (emit ls st) = cache_ok st"
  by (simp add: cache_ok_def split: backend.splits)

lemma cache_ok_server_step: "cache_ok st \<Longrightarrow> cache_ok (fst (server_step env st line))"
  by (simp add: server_step_def cache_ok_step split: option.splits json.splits)

lemma server_loop_inv:
  "cache_ok st \<Longrightarrow>
     cache_ok (server_loop env st lines) \<and>
     scanner_model (server_loop env st lines) = scanner_model st"
proof (induction lines arbitrary: st)
  case Nil
  then show ?case by simp
next
  case (Cons line rest)
  obtain st1 c where s: "server_step env st line = (st1, c)" by (cases "server_step env st line")
  from cache_ok_server_step [OF Cons.prems, of env line] s have ok1: "cache_ok st1" by simp
  from scanner_server_step [of env st line] s have sc1: "scanner_model st1 = scanner_model st"
    by simp
  show ?case
  proof (cases c)
    case Continue
    with s Cons.IH [OF ok1] sc1 show ?thesis by simp
  next
    case Break
    with s ok1 sc1 show ?thesis by simp
  qed
qed

lemma run_server_inv:
  assumes "run_server env w lines = (printed, Some st1)"
  shows "scanner_model st1 = Backend (JStr ''tiny.en'') 0 \<and> cache_ok st1"
proof -
  let ?init = "\<lparr>scanner_model = Backend (JStr ''tiny.en'') 0,
                current_model = Backend (JStr ''tiny.en'') 0,
                current_model_name = JStr ''tiny.en'',
                constructed = [JStr ''tiny.en''],
                out = [Text ''[SERVER] Initializing engine...'',
                       Text ''[SERVER] Loading core models...''] @
                      [Text ''[SERVER] Engine ready.''],
                world = w\<rparr>"
  from assms have st1: "st1 = server_loop env ?init lines"
    by (auto simp: run_server_def Let_def split: option.splits)
  have "cache_ok ?init" by (simp add: cache_ok_def)
  from server_loop_inv [OF this, of env lines] show ?thesis
    unfolding st1 by simp
qed

lemma ex_run_transcribe:
  "snd (run_server ex_server_env () [Some (JObj [(''action'', JStr ''transcribe'')])]) =
     Some \<lparr>scanner_model = Backend (JStr ''tiny.en'') 0,
           current_model = Backend (JStr ''large-v3'') 1,
           current_model_name = JStr ''large-v3'',
           constructed = [JStr ''tiny.en'', JStr ''large-v3''],
           out = [Text ''[SERVER] Initializing engine...'',
                  Text ''[SERVER] Loading core models...'',
                  Text ''[SERVER] Engine ready.'',
                  Text ''[SERVER] Switching to large-v3 model...'',
                  Text ''[SAVED] out.txt'',
                  complete ''transcribe''],
           world = ()\<rparr>"
  by (simp add: run_server_def Let_def server_step_def dispatch_def switch_model_def
      requested_model_def built_inside_def finish_def emit_def ex_server_env_def)

lemma ex_run_transcribe_scan:
  "snd (run_server ex_server_env ()
          [Some (JObj [(''action'', JStr ''transcribe'')]),
           Some (JObj [(''action'', JStr ''scan'')])]) =
     Some \<lparr>scanner_model = Backend (JStr ''tiny.en'') 0,
           current_model = Backend (JStr ''tiny.en'') 2,
           current_model_name = JStr ''tiny.en'',
           constructed = [JStr ''tiny.en'', JStr ''large-v3'', JStr ''tiny.en''],
           out = [Text ''[SERVER] Initializing engine...'',
                  Text ''[SERVER] Loading core models...'',
                  Text ''[SERVER] Engine ready.'',
                  Text ''[SERVER] Switching to large-v3 model...'',
                  Text ''[SAVED] out.txt'',
                  complete ''transcribe'',
                  Text ''[SERVER] Switching to tiny.en model...'',
                  Text ''[BATCH] Found 0 media files'',
                  complete ''scan''],
           world = ()\<rparr>"
  by (simp add: run_server_def Let_def server_step_def dispatch_def switch_model_def
      requested_model_def built_inside_def finish_def emit_def ex_server_env_def)

text \<open>
  Claim C7 as stated fails: the server does not hold at most one loaded speech
  model. The tiny model built at start-up stays bound to \<open>scanner_model\<close> for the
  whole run, so after one \<open>transcribe\<close> command two instances are loaded, the
  start-up tiny model and \<open>large-v3\<close>; and a \<open>scan\<close> command after it builds a second
  tiny model beside the first.
\<close>

theorem two_models_loaded:
  "map_option loaded
     (snd (run_server ex_server_env () [Some (JObj [(''action'', JStr ''transcribe'')])])) =
     Some [Backend (JStr ''tiny.en'') 0, Backend (JStr ''large-v3'') 1] \<and>
   map_option loaded
     (snd (run_server ex_server_env ()
             [Some (JObj [(''action'', JStr ''transcribe'')]),
              Some (JObj [(''action'', JStr ''scan'')])])) =
     Some [Backend (JStr ''tiny.en'') 0, Backend (JStr ''tiny.en'') 2] \<and>
   map_option constructed
     (snd (run_server ex_server_env ()
             [Some (JObj [(''action'', JStr ''transcribe'')]),
              Some (JObj [(''action'', JStr ''scan'')])])) =
     Some [JStr ''tiny.en'', JStr ''large-v3'', JStr ''tiny.en'']"
  unfolding ex_run_transcribe ex_run_transcribe_scan by (simp add: loaded_def)

text \<open>
  Claim C7, amended. Between commands the server holds at most two loaded speech
  models: the tiny model built at start-up, which \<open>scanner_model\<close> keeps for the whole
  run, and the model \<open>current_model\<close> refers to; they are the same instance until the
  first successful switch. A load is attempted only on a key change. A command asks
  for a model only when it is \<open>scan\<close> (the tiny model) or \<open>transcribe\<close> (the model
  it names, \<open>large-v3\<close> by default). Any other command leaves the cached handle, the
  recorded name and the list of constructions as they are. When the name asked for
  is the recorded one, the handle is kept and nothing is constructed. When it
  differs, exactly one construction is attempted: if it succeeds, the new handle
  replaces the old one in \<open>current_model\<close> and the recorded name becomes the name
  asked for; if it raises, handle and name stay. Throughout, the recorded name is
  the name the cached handle was built from.
\<close>

theorem model_cache_reuse_or_switch:
  "(case requested_by cmd of
      None \<Rightarrow> current_model (fst (dispatch env cmd st)) = current_model st \<and>
              current_model_name (fst (dispatch env cmd st)) = current_model_name st \<and>
              constructed (fst (dispatch env cmd st)) = constructed st
    | Some name \<Rightarrow>
        if current_model_name st = name
        then current_model (fst (dispatch env cmd st)) = current_model st \<and>
             current_model_name (fst (dispatch env cmd st)) = name \<and>
             constructed (fst (dispatch env cmd st)) = constructed st
        else constructed (fst (dispatch env cmd st)) = constructed st @ [name] \<and>
             (case construct env name of
                None \<Rightarrow> current_model (fst (dispatch env cmd st)) =
                           Backend name (length (constructed st)) \<and>
                         current_model_name (fst (dispatch env cmd st)) = name
              | Some msg \<Rightarrow> current_model (fst (dispatch env cmd st)) = current_model st \<and>
                            current_model_name (fst (dispatch env cmd st)) =
                              current_model_name st)) \<and>
   (cache_ok st \<longrightarrow> cache_ok (fst (dispatch env cmd st))) \<and>
   scanner_model (fst (dispatch env cmd st)) = scanner_model st \<and>
   set (loaded (fst (dispatch env cmd st))) =
     {scanner_model st, current_model (fst (dispatch env cmd st))} \<and>
   length (loaded (fst (dispatch env cmd st))) \<le> 2 \<and>
   (\<forall>w lines printed st1.
      run_server env w lines = (printed, Some st1) \<longrightarrow>
        scanner_model st1 = Backend (JStr ''tiny.en'') 0 \<and> cache_ok st1 \<and>
        set (loaded st1) = {Backend (JStr ''tiny.en'') 0, current_model st1} \<and>
        length (loaded st1) \<le> 2 \<and>
        (length (loaded st1) = 1 \<longleftrightarrow> current_model st1 = Backend (JStr ''tiny.en'') 0))"
proof -
  let ?st = "fst (dispatch env cmd st)"
  note c1 = cache_step [where cmd = cmd and env = env and st = st]
  have c2: "cache_ok st \<longrightarrow> cache_ok ?st"
    using cache_ok_step [of st env cmd] by (intro impI)
  have c3: "scanner_model ?st = scanner_model st" by (rule scanner_step)
  have c4: "set (loaded ?st) = {scanner_model st, current_model ?st}"
    by (simp add: loaded_def c3)
  have c5: "length (loaded ?st) \<le> 2" by (simp add: loaded_def)
  have c6: "\<forall>w lines printed st1.
      run_server env w lines = (printed, Some st1) \<longrightarrow>
        scanner_model st1 = Backend (JStr ''tiny.en'') 0 \<and> cache_ok st1 \<and>
        set (loaded st1) = {Backend (JStr ''tiny.en'') 0, current_model st1} \<and>
        length (loaded st1) \<le> 2 \<and>
        (length (loaded st1) = 1 \<longleftrightarrow> current_model st1 = Backend (JStr ''tiny.en'') 0)"
  proof (intro allI impI)
    fix w lines printed st1
    assume a: "run_server env w lines = (printed, Some (st1 :: 'a server_state))"
    from run_server_inv [OF a]
    have i: "scanner_model st1 = Backend (JStr ''tiny.en'') 0" "cache_ok st1"
      by simp_all
    then show "scanner_model st1 = Backend (JStr ''tiny.en'') 0 \<and> cache_ok st1 \<and>
        set (loaded st1) = {Backend (JStr ''tiny.en'') 0, current_model st1} \<and>
        length (loaded st1) \<le> 2 \<and>
        (length (loaded st1) = 1 \<longleftrightarrow> current_model st1 = Backend (JStr ''tiny.en'') 0)"
      by (auto simp: loaded_def)
  qed
  from c1 c2 c3 c4 c5 c6 show ?thesis by (intro conjI)
qed

theorem model_cache_reuse_or_switch_witness:
  "requested_by [(''action'', JStr ''transcribe''), (''file'', JStr ''a.mp4'')] = Some (JStr ''large-v3'') \<and>
   current_model_name ex_server_state = JStr ''tiny.en'' \<and>
   construct ex_server_env (JStr ''large-v3'') = None \<and>
   cache_ok ex_server_state \<and>
   constructed (fst (dispatch ex_server_env
      [(''action'', JStr ''transcribe''), (''file'', JStr ''a.mp4'')] ex_server_state)) =
     [JStr ''tiny.en'', JStr ''large-v3''] \<and>
   current_model (fst (dispatch ex_server_env
      [(''action'', JStr ''transcribe''), (''file'', JStr ''a.mp4'')] ex_server_state)) =
     Backend (JStr ''large-v3'') 1 \<and>
   current_model_name (fst (dispatch ex_server_env
      [(''action'', JStr ''transcribe''), (''file'', JStr ''a.mp4'')] ex_server_state)) =
     JStr ''large-v3'' \<and>
   cache_ok (fst (dispatch ex_server_env
      [(''action'', JStr ''transcribe''), (''file'', JStr ''a.mp4'')] ex_server_state)) \<and>
   scanner_model (fst (dispatch ex_server_env
      [(''action'', JStr ''transcribe''), (''file'', JStr ''a.mp4'')] ex_server_state)) =
     Backend (JStr ''tiny.en'') 0 \<and>
   map_option current_model
     (snd (run_server ex_server_env () [Some (JObj [(''action'', JStr ''transcribe'')])])) =
     Some (Backend (JStr ''large-v3'') 1) \<and>
   map_option (\<lambda>s. length (loaded s))
     (snd (run_server ex_server_env () [Some (JObj [(''action'', JStr ''transcribe'')])])) =
     Some 2 \<and>
   map_option cache_ok
     (snd (run_server ex_server_env () [Some (JObj [(''action'', JStr ''transcribe'')])])) =
     Some True"
proof -
  let ?cmd = "[(''action'', JStr ''transcribe''), (''file'', JStr ''a.mp4'')]"
  let ?lines = "[Some (JObj [(''action'', JStr ''transcribe'')])]"
  have r: "requested_by ?cmd = Some (JStr ''large-v3'')"
    by (simp add: requested_by_def requested_model_def)
  have ok: "cache_ok ex_server_state"
    by (simp add: cache_ok_def ex_server_state_def)
  note T = model_cache_reuse_or_switch [where cmd = ?cmd and env = ex_server_env
      and st = ex_server_state]
  from T [THEN conjunct1] have
    "constructed (fst (dispatch ex_server_env ?cmd ex_server_state)) =
       [JStr ''tiny.en'', JStr ''large-v3''] \<and>
     current_model (fst (dispatch ex_server_env ?cmd ex_server_state)) =
       Backend (JStr ''large-v3'') 1 \<and>
     current_model_name (fst (dispatch ex_server_env ?cmd ex_server_state)) = JStr ''large-v3''"
    unfolding r by (simp add: ex_env_simps ex_state_simps)
  moreover from T [THEN conjunct2, THEN conjunct1] ok
  have "cache_ok (fst (dispatch ex_server_env ?cmd ex_server_state))" by blast
  moreover from T [THEN conjunct2, THEN conjunct2, THEN conjunct1]
  have "scanner_model (fst (dispatch ex_server_env ?cmd ex_server_state)) =
          Backend (JStr ''tiny.en'') 0"
    by (simp add: ex_server_state_def)
  moreover obtain printed st1 where
    run: "run_server ex_server_env () ?lines = (printed, Some st1)"
    and cur: "current_model st1 = Backend (JStr ''large-v3'') 1"
    using ex_run_transcribe by (cases "run_server ex_server_env () ?lines") auto
  from T [THEN conjunct2, THEN conjunct2, THEN conjunct2, THEN conjunct2, THEN conjunct2] run
  have g: "cache_ok st1 \<and> length (loaded st1) \<le> 2 \<and>
           (length (loaded st1) = 1 \<longleftrightarrow> current_model st1 = Backend (JStr ''tiny.en'') 0)"
    by blast
  with cur have "length (loaded st1) = 2 \<and> cache_ok st1"
    by (cases "length (loaded st1) = 1") (auto simp: loaded_def)
  with run cur have
    "map_option current_model (snd (run_server ex_server_env () ?lines)) =
       Some (Backend (JStr ''large-v3'') 1) \<and>
     map_option (\<lambda>s. length (loaded s)) (snd (run_server ex_server_env () ?lines)) = Some 2 \<and>
     map_option cache_ok (snd (run_server ex_server_env () ?lines)) = Some True"
    by simp
  ultimately show ?thesis
    using r ok ex_env_simps(1) ex_state_simps(2) by (intro conjI) simp_all
qed

text \<open>
  Claim C6. A line that is not valid JSON makes the server write exactly one line,
  \<open>[ERROR] Invalid JSON command\<close>; nothing else of its state changes, the loop goes on,
  and the lines that follow are processed as they would have been.
\<close>

theorem malformed_line_one_error:
  "server_step env st None =
     (st\<lparr>out := out st @ [Text ''[ERROR] Invalid JSON command'']\<rparr>, Continue) \<and>
   server_loop env st (None # rest) =
     server_loop env (st\<lparr>out := out st @ [Text ''[ERROR] Invalid JSON command'']\<rparr>) rest"
  by (simp add: server_step_def emit_def)

theorem malformed_line_one_error_witness:
  "out (server_loop ex_server_env ex_server_state
          [None, Some (JObj [(''action'', JStr ''ping'')])]) =
     [Text ''[ERROR] Invalid JSON command'', Status [(''status'', JStr ''pong'')]]"
proof -
  note T = malformed_line_one_error [where env = ex_server_env and st = ex_server_state
      and rest = "[Some (JObj [(''action'', JStr ''ping'')])]", THEN conjunct2]
  show ?thesis
    unfolding T by (simp add: server_step_def dispatch_def ex_server_state_def)
qed

text \<open>
  Claim C5 as stated fails. A command whose action is outside the fixed set is
  answered with no line at all, and \<open>semantic_search\<close> over a directory without
  transcripts is answered with two \<open>complete\<close> objects, one written by the handler
  and one by the server.
\<close>

theorem unknown_action_no_response:
  "new_lines ex_server_state
     (fst (server_step ex_server_env ex_server_state
        (Some (JObj [(''action'', JStr ''frobnicate'')])))) = [] \<and>
   snd (server_step ex_server_env ex_server_state
        (Some (JObj [(''action'', JStr ''frobnicate'')]))) = Continue \<and>
   filter is_status
     (new_lines ex_server_state
        (fst (server_step ex_server_env ex_server_state
           (Some (JObj [(''action'', JStr ''semantic_search'')]))))) =
     [complete_empty ''semantic_search'', complete ''semantic_search'']"
  by (simp add: server_step_def dispatch_def new_lines_def ex_env_simps ex_state_simps
      finish_lines_def is_status_def complete_def complete_empty_def)

text \<open>
  Claim C5, amended. For a command that is a JSON object: \<open>ping\<close> is answered with
  exactly the line \<open>{"status": "pong"}\<close>. For \<open>scan\<close>, \<open>vad_scan\<close>, \<open>transcribe\<close>
  and \<open>analyze\<close> the server writes, after the handler's text lines (and after the
  line announcing a model switch), exactly one final line: the object
  \<open>{"status": "complete", "action": name}\<close> when the handler returns, the line
  \<open>[ERROR] message\<close> when the handler or the model switch raises. \<open>exit\<close> ends the
  loop without a line, and a command with any other action, or none, is skipped
  without a line.
\<close>

theorem one_final_line_per_handled_command:
  "(map_of cmd ''action'' = Some (JStr ''ping'') \<longrightarrow>
      new_lines st (fst (dispatch env cmd st)) = [Status [(''status'', JStr ''pong'')]]) \<and>
   (map_of cmd ''action'' = Some (JStr ''vad_scan'') \<longrightarrow>
      (case batch_vad_scan env cmd (world st) of (lines, raised, w) \<Rightarrow>
         new_lines st (fst (dispatch env cmd st)) =
           map Text lines @ [final_line ''vad_scan'' raised])) \<and>
   (map_of cmd ''action'' = Some (JStr ''analyze'') \<longrightarrow>
      (case analyze env cmd (world st) of (lines, raised, w) \<Rightarrow>
         new_lines st (fst (dispatch env cmd st)) =
           map Text lines @ [final_line ''analyze'' raised])) \<and>
   (map_of cmd ''action'' = Some (JStr ''scan'') \<longrightarrow>
      (case switch_model env (JStr ''tiny.en'') st of
         Inl (msg, st1) \<Rightarrow>
           new_lines st (fst (dispatch env cmd st)) = new_lines st st1 @ [error_line msg]
       | Inr st1 \<Rightarrow>
           (case batch_scanner env cmd (Some (current_model st1)) (world st1) of
              (lines, raised, w) \<Rightarrow>
                new_lines st (fst (dispatch env cmd st)) =
                  new_lines st st1 @ map Text lines @ [final_line ''scan'' raised]))) \<and>
   (map_of cmd ''action'' = Some (JStr ''transcribe'') \<longrightarrow>
      (case switch_model env (requested_model cmd) st of
         Inl (msg, st1) \<Rightarrow>
           new_lines st (fst (dispatch env cmd st)) = new_lines st st1 @ [error_line msg]
       | Inr st1 \<Rightarrow>
           (case transcriber env cmd (Some (current_model st1)) (world st1) of
              (lines, raised, w) \<Rightarrow>
                new_lines st (fst (dispatch env cmd st)) =
                  new_lines st st1 @ map Text lines @ [final_line ''transcribe'' raised]))) \<and>
   (\<forall>name st1. switch_model env name st = Inr st1 \<or> (\<exists>msg. switch_model env name st = Inl (msg, st1)) \<longrightarrow>
      filter is_status (new_lines st st1) = [] \<and> length (new_lines st st1) \<le> 1) \<and>
   (map_of cmd ''action'' = Some (JStr ''exit'') \<longrightarrow> dispatch env cmd st = (st, Break)) \<and>
   (\<not> known_action cmd \<longrightarrow> dispatch env cmd st = (st, Continue))"
proof -
  have sw: "filter is_status (new_lines st st1) = [] \<and> length (new_lines st st1) \<le> 1"
    if "switch_model env name st = Inr st1 \<or> (\<exists>msg. switch_model env name st = Inl (msg, st1))"
    for name st1
    using that
  proof (elim disjE exE)
    assume a: "switch_model env name st = Inr st1"
    from switch_out(1) [OF a] show ?thesis by (simp add: new_lines_def is_status_def)
  next
    fix msg
    assume a: "switch_model env name st = Inl (msg, st1)"
    from switch_out(2) [OF a] show ?thesis by (simp add: new_lines_def is_status_def)
  qed
  have sc: "case switch_model env (JStr ''tiny.en'') st of
         Inl (msg, st1) \<Rightarrow>
           new_lines st (fst (dispatch env cmd st)) = new_lines st st1 @ [error_line msg]
       | Inr st1 \<Rightarrow>
           (case batch_scanner env cmd (Some (current_model st1)) (world st1) of
              (lines, raised, w) \<Rightarrow>
                new_lines st (fst (dispatch env cmd st)) =
                  new_lines st st1 @ map Text lines @ [final_line ''scan'' raised])"
    if "map_of cmd ''action'' = Some (JStr ''scan'')"
    by (rule switched_lines [where h = "batch_scanner env cmd" and n = "JStr ''tiny.en''"])
       (rule dispatch_scan [OF that])
  have tr: "case switch_model env (requested_model cmd) st of
         Inl (msg, st1) \<Rightarrow>
           new_lines st (fst (dispatch env cmd st)) = new_lines st st1 @ [error_line msg]
       | Inr st1 \<Rightarrow>
           (case transcriber env cmd (Some (current_model st1)) (world st1) of
              (lines, raised, w) \<Rightarrow>
                new_lines st (fst (dispatch env cmd st)) =
                  new_lines st st1 @ map Text lines @ [final_line ''transcribe'' raised])"
    if "map_of cmd ''action'' = Some (JStr ''transcribe'')"
    by (rule switched_lines [where h = "transcriber env cmd" and n = "JStr ''large-v3''"])
       (rule dispatch_transcribe [OF that])
  have c1: "map_of cmd ''action'' = Some (JStr ''ping'') \<longrightarrow>
      new_lines st (fst (dispatch env cmd st)) = [Status [(''status'', JStr ''pong'')]]"
    using ping_lines [where cmd = cmd and env = env and st = st] by (rule impI)
  have c2: "map_of cmd ''action'' = Some (JStr ''vad_scan'') \<longrightarrow>
      (case batch_vad_scan env cmd (world st) of (lines, raised, w) \<Rightarrow>
         new_lines st (fst (dispatch env cmd st)) =
           map Text lines @ [final_line ''vad_scan'' raised])"
    using simple_lines [where cmd = cmd and env = env and st = st] by (rule impI)
  have c3: "map_of cmd ''action'' = Some (JStr ''analyze'') \<longrightarrow>
      (case analyze env cmd (world st) of (lines, raised, w) \<Rightarrow>
         new_lines st (fst (dispatch env cmd st)) =
           map Text lines @ [final_line ''analyze'' raised])"
    using analyze_lines [where cmd = cmd and env = env and st = st] by (rule impI)
  have c4: "map_of cmd ''action'' = Some (JStr ''scan'') \<longrightarrow>
      (case switch_model env (JStr ''tiny.en'') st of
         Inl (msg, st1) \<Rightarrow>
           new_lines st (fst (dispatch env cmd st)) = new_lines st st1 @ [error_line msg]
       | Inr st1 \<Rightarrow>
           (case batch_scanner env cmd (Some (current_model st1)) (world st1) of
              (lines, raised, w) \<Rightarrow>
                new_lines st (fst (dispatch env cmd st)) =
                  new_lines st st1 @ map Text lines @ [final_line ''scan'' raised]))"
    using sc by (rule impI)
  have c5: "map_of cmd ''action'' = Some (JStr ''transcribe'') \<longrightarrow>
      (case switch_model env (requested_model cmd) st of
         Inl (msg, st1) \<Rightarrow>
           new_lines st (fst (dispatch env cmd st)) = new_lines st st1 @ [error_line msg]
       | Inr st1 \<Rightarrow>
           (case transcriber env cmd (Some (current_model st1)) (world st1) of
              (lines, raised, w) \<Rightarrow>
                new_lines st (fst (dispatch env cmd st)) =
                  new_lines st st1 @ map Text lines @ [final_line ''transcribe'' raised]))"
    using tr by (rule impI)
  have c6: "\<forall>name st1. switch_model env name st = Inr st1 \<or>
        (\<exists>msg. switch_model env name st = Inl (msg, st1)) \<longrightarrow>
      filter is_status (new_lines st st1) = [] \<and> length (new_lines st st1) \<le> 1"
    using sw by (intro allI impI)
  have c7: "map_of cmd ''action'' = Some (JStr ''exit'') \<longrightarrow> dispatch env cmd st = (st, Break)"
    using exit_stops [where cmd = cmd and env = env and st = st] by (rule impI)
  have c8: "\<not> known_action cmd \<longrightarrow> dispatch env cmd st = (st, Continue)"
    using unknown_ignored [where cmd = cmd and env = env and st = st] by (rule impI)
  from c1 c2 c3 c4 c5 c6 c7 c8 show ?thesis by (intro conjI)
qed

theorem one_final_line_per_handled_command_witness:
  "map_of [(''action'', JStr ''vad_scan'')] ''action'' = Some (JStr ''vad_scan'') \<and>
   new_lines ex_server_state
     (fst (dispatch ex_server_env [(''action'', JStr ''vad_scan'')] ex_server_state)) =
     [error_line ''ffmpeg failed''] \<and>
   map_of [(''action'', JStr ''ping'')] ''action'' = Some (JStr ''ping'') \<and>
   new_lines ex_server_state
     (fst (dispatch ex_server_env [(''action'', JStr ''ping'')] ex_server_state)) =
     [Status [(''status'', JStr ''pong'')]]"
proof -
  have a: "map_of [(''action'', JStr ''vad_scan'')] ''action'' = Some (JStr ''vad_scan'')"
    and b: "map_of [(''action'', JStr ''ping'')] ''action'' = Some (JStr ''ping'')"
    by simp_all
  note T = one_final_line_per_handled_command [where env = ex_server_env and st = ex_server_state]
  from T [where cmd = "[(''action'', JStr ''vad_scan'')]", THEN conjunct2, THEN conjunct1,
      rule_format, OF a]
  have 1: "new_lines ex_server_state
     (fst (dispatch ex_server_env [(''action'', JStr ''vad_scan'')] ex_server_state)) =
     [error_line ''ffmpeg failed'']"
    by (simp add: ex_env_simps final_line_def)
  from T [where cmd = "[(''action'', JStr ''ping'')]", THEN conjunct1, rule_format, OF b]
  have 2: "new_lines ex_server_state
     (fst (dispatch ex_server_env [(''action'', JStr ''ping'')] ex_server_state)) =
     [Status [(''status'', JStr ''pong'')]]" .
  from a 1 b 2 show ?thesis by (intro conjI)
qed

section \<open>Properties of \<open>run_transcriber\<close>\<close>










lemma ex_transcriber_simps:
  "format_value ex_transcriber_env n (JInt 0) = Some ''0.0''"
  "format_value ex_transcriber_env n (JInt 30) = Some ''0.0''"
  "value_str ex_transcriber_env (JInt 0) = ''0''"
  "value_str ex_transcriber_env (JInt 30) = ''30''"
  "new_model ex_transcriber_env ''large-v3'' = Inr (WhisperModel ''large-v3'' 0)"
  "clip_transcribe ex_transcriber_env m ''/media/a.mp4'' clip = Inr [seg 0 1]"
  by (simp_all add: ex_transcriber_env_def)

lemma ex_out_path:
  "out_path_of ex_transcriber_env ''/media/a.mp4'' ''large-v3'' None =
     ''/media/a_transcript_large_v3.txt''"
proof -
  have "fst (splitext ''/media/a.mp4'') = ''/media/a''" by code_simp
  moreover have "safe_model ''large-v3'' = ''large_v3''" by (simp add: safe_model_def)
  ultimately show ?thesis
    by (simp add: out_path_of_def ex_transcriber_env_def)
qed


text \<open>
  The same call without \<open>skip_existing\<close> appends a section to the transcript, and a
  call with \<open>skip_existing\<close> for a file the backend cannot read raises with the
  transcript unchanged.
\<close>

lemma ex_transcriber_appends:
  "fst (run_transcriber ex_transcriber_env ''/media/a.mp4'' (JInt 0) (JInt 30) None ''large-v3''
          None False ex_transcriber_state) = Inr [''[0.00 - 0.00] ''] \<and>
   fs_files (tr_fs (snd (run_transcriber ex_transcriber_env ''/media/a.mp4'' (JInt 0) (JInt 30)
                           None ''large-v3'' None False ex_transcriber_state)))
     ''/media/a_transcript_large_v3.txt'' =
     Some (''old text'' @ ''--- Transcription [0.0s - 0.0s] ---'' @ [CHR 0x0A] @
           ''Source: /media/a.mp4'' @ [CHR 0x0A] @ ''[0.00 - 0.00] '' @ [CHR 0x0A] @ [CHR 0x0A])"
proof -
  have o: "out_path_of ex_transcriber_env ''/media/a.mp4'' ''large-v3'' None =
             ''/media/a_transcript_large_v3.txt''" by (rule ex_out_path)
  have e: "encodes ex_transcriber_env = (\<lambda>s. True)"
    "opens_for_write ex_transcriber_env = (\<lambda>fs p. True)"
    "os_path_abspath ex_transcriber_env = (\<lambda>p. p)"
    "format_float ex_transcriber_env = (\<lambda>n x. ''0.00'')"
    "str_strip ex_transcriber_env = (\<lambda>s. s)"
    by (simp_all add: ex_transcriber_env_def)
  show ?thesis
    by (simp add: run_transcriber_def ensure_model_def transcribe_window_def
        prepare_out_path_def write_transcript_def segment_line_def Let_def o e
        ex_transcriber_simps path_exists_def ex_transcriber_state_def seg_def)
qed

lemma ex_transcriber_backend_raises:
  "fst (run_transcriber ex_transcriber_env ''/media/gone.mp4'' (JInt 0) (JInt 30) None
          ''large-v3'' None True ex_transcriber_state) = Inl (TranscribeError ''no such file'')"
proof -
  have "clip_transcribe ex_transcriber_env m ''/media/gone.mp4'' clip = Inl ''no such file''"
    for m clip by (simp add: ex_transcriber_env_def)
  then show ?thesis
    by (simp add: run_transcriber_def ensure_model_def transcribe_window_def Let_def
        ex_transcriber_simps)
qed

end
